theory Spec2Isabelle
  imports
    Main
    "HOL-Library.Sublist"
    "HOL-Library.Multiset"
    "HOL-Library.Char_ord"
    "HOL-Library.List_Lexorder"
begin

section \<open>JavaScript primitives used by the dashboard\<close>

text \<open>
  The program is TypeScript running on a JavaScript engine. Strings are modelled as
  \<^typ>\<open>string\<close> over ASCII; a \<open>number\<close> is modelled as an \<^typ>\<open>int\<close>
  (the integers a double represents exactly), with \<open>NaN\<close> as \<^term>\<open>None\<close> where the
  code tests for it.
\<close>

subsection \<open>Strings\<close>

definition isWhiteSpace :: "char \<Rightarrow> bool" where
  "isWhiteSpace c = (c \<in> set [CHR 0x09, CHR 0x0A, CHR 0x0B, CHR 0x0C, CHR 0x0D, CHR 0x20])"

definition isDigit :: "char \<Rightarrow> bool" where
  "isDigit c = (c \<in> set ''0123456789'')"

definition isWordChar :: "char \<Rightarrow> bool" where
  "isWordChar c =
     (c \<in> set ''abcdefghijklmnopqrstuvwxyzABCDEFGHIJKLMNOPQRSTUVWXYZ0123456789_'')"

text \<open>\<open>String.prototype.toLowerCase\<close> on ASCII: the letters A to Z are mapped, every other
  character is kept.\<close>

definition lowerChar :: "char \<Rightarrow> char" where
  "lowerChar c =
     (case map_of (zip ''ABCDEFGHIJKLMNOPQRSTUVWXYZ'' ''abcdefghijklmnopqrstuvwxyz'') c of
        Some l \<Rightarrow> l
      | None \<Rightarrow> c)"

definition toLowerCase :: "string \<Rightarrow> string" where
  "toLowerCase s = map lowerChar s"

text \<open>\<open>String.prototype.trim\<close>.\<close>

definition trim :: "string \<Rightarrow> string" where
  "trim s = rev (dropWhile isWhiteSpace (rev (dropWhile isWhiteSpace s)))"

text \<open>\<open>String.prototype.split\<close> with a non-empty separator string: the pieces between the
  successive non-overlapping occurrences of the separator, found from the left. The
  empty string gives one empty piece.\<close>

function splitFrom :: "string \<Rightarrow> string \<Rightarrow> string \<Rightarrow> string list" where
  "splitFrom sep cur s =
     (if s = [] then [cur]
      else if sep \<noteq> [] \<and> prefix sep s then cur # splitFrom sep [] (drop (length sep) s)
      else splitFrom sep (cur @ [hd s]) (tl s))"
  by pat_completeness auto
termination
  by (relation "measure (\<lambda>(sep, cur, s). length s)") auto

definition split :: "string \<Rightarrow> string \<Rightarrow> string list" where
  "split s sep = splitFrom sep [] s"

text \<open>\<open>String.prototype.includes\<close>: the needle occurs at some position of the string.\<close>

fun includes_str :: "string \<Rightarrow> string \<Rightarrow> bool" where
  "includes_str [] needle = (needle = [])"
| "includes_str (c # cs) needle = (prefix needle (c # cs) \<or> includes_str cs needle)"

subsection \<open>Numbers and strings\<close>

definition digitValue :: "char \<Rightarrow> nat" where
  "digitValue c = (case map_of (zip ''0123456789'' [0, 1, 2, 3, 4, 5, 6, 7, 8, 9]) c of
                     Some d \<Rightarrow> d | None \<Rightarrow> 0)"

definition decimalValue :: "string \<Rightarrow> nat" where
  "decimalValue ds = foldl (\<lambda>acc c. 10 * acc + digitValue c) 0 ds"

text \<open>\<open>parseInt(s, 10)\<close>: leading white space is skipped, one sign is accepted, the
  longest prefix of decimal digits is read and whatever follows is ignored; without a
  digit the result is \<open>NaN\<close>, here \<^term>\<open>None\<close>.\<close>

definition parseInt :: "string \<Rightarrow> int option" where
  "parseInt s =
     (let t = dropWhile isWhiteSpace s;
          neg = (t \<noteq> [] \<and> hd t = CHR ''-'');
          u = (if t \<noteq> [] \<and> (hd t = CHR ''+'' \<or> hd t = CHR ''-'') then tl t else t);
          z = takeWhile isDigit u
      in if z = [] then None
         else Some (if neg then - int (decimalValue z) else int (decimalValue z)))"

text \<open>\<open>String(n)\<close> for an integer \<open>n\<close>.\<close>

function digitsOf :: "nat \<Rightarrow> string" where
  "digitsOf n =
     (if n < 10 then [''0123456789'' ! n] else digitsOf (n div 10) @ [''0123456789'' ! (n mod 10)])"
  by pat_completeness auto
termination
  by (relation "measure id") auto

definition numberToString :: "int \<Rightarrow> string" where
  "numberToString n = (if n < 0 then CHR ''-'' # digitsOf (nat (- n)) else digitsOf (nat n))"

subsection \<open>Plain objects used as dictionaries\<close>

text \<open>
  An object literal inherits from \<open>Object.prototype\<close>, so reading \<open>obj[key]\<close> finds the
  object's own property, or else a member of \<open>Object.prototype\<close> when the key is the name
  of one, or else \<open>undefined\<close>.
\<close>

datatype 'a lookup = Undefined | Own 'a | Inherited

definition objectPrototypeMembers :: "string list" where
  "objectPrototypeMembers =
     [''constructor'', ''__defineGetter__'', ''__defineSetter__'', ''hasOwnProperty'',
      ''__lookupGetter__'', ''__lookupSetter__'', ''isPrototypeOf'', ''propertyIsEnumerable'',
      ''toString'', ''valueOf'', ''__proto__'', ''toLocaleString'']"

definition readProp :: "(string \<times> 'a) list \<Rightarrow> string \<Rightarrow> 'a lookup" where
  "readProp obj key =
     (case map_of obj key of
        Some v \<Rightarrow> Own v
      | None \<Rightarrow> if key \<in> set objectPrototypeMembers then Inherited else Undefined)"

subsection \<open>Dates\<close>

text \<open>
  A \<open>Date\<close> holds a time value, the milliseconds since the epoch in UTC, or is the
  invalid date (time value \<open>NaN\<close>). \<open>new Date(year, month, day)\<close> follows ECMA-262:
  \<open>MakeDay\<close> turns the local calendar fields into a day number, months outside 0..11
  and days outside the month rolling over, and gives \<open>NaN\<close> (\<^term>\<open>None\<close>) where an
  argument is out of range; the bounds are the engine's, and those of V8 are taken: a
  year beyond 1000000 or a month beyond 10000000 in absolute value is out of range. A
  year from 0 to 99 means 1900 + year; the
  local time is converted to UTC by the engine's time zone, which is the parameter \<open>utc\<close>;
  \<open>TimeClip\<close> makes the date invalid beyond 8.64e15 ms from the epoch. A month that
  is not a number (\<^term>\<open>None\<close>) makes the date invalid.
\<close>

datatype jsdate = InvalidDate | TimeValue int

definition isValidDate :: "jsdate \<Rightarrow> bool" where
  "isValidDate d = (d \<noteq> InvalidDate)"

definition msPerDay :: int where
  "msPerDay = 86400000"

definition dayFromYear :: "int \<Rightarrow> int" where
  "dayFromYear y =
     365 * (y - 1970) + (y - 1969) div 4 - (y - 1901) div 100 + (y - 1601) div 400"

definition inLeapYear :: "int \<Rightarrow> bool" where
  "inLeapYear y = ((y mod 4 = 0 \<and> y mod 100 \<noteq> 0) \<or> y mod 400 = 0)"

definition daysBeforeMonth :: "int \<Rightarrow> int \<Rightarrow> int" where
  "daysBeforeMonth y mn =
     [0, 31, 59, 90, 120, 151, 181, 212, 243, 273, 304, 334] ! nat mn
       + (if inLeapYear y \<and> 2 \<le> mn then 1 else 0)"

definition makeDay :: "int \<Rightarrow> int \<Rightarrow> int \<Rightarrow> int option" where
  "makeDay year month date =
     (if \<bar>year\<bar> \<le> 1000000 \<and> \<bar>month\<bar> \<le> 10000000 then
        (let ym = year + month div 12; mn = month mod 12
         in Some (dayFromYear ym + daysBeforeMonth ym mn + date - 1))
      else None)"

definition timeClip :: "int \<Rightarrow> jsdate" where
  "timeClip t = (if \<bar>t\<bar> > 8640000000000000 then InvalidDate else TimeValue t)"

definition newDate :: "(int \<Rightarrow> int) \<Rightarrow> int \<Rightarrow> int option \<Rightarrow> int \<Rightarrow> jsdate" where
  "newDate utc year month day =
     (case month of
        None \<Rightarrow> InvalidDate
      | Some m \<Rightarrow>
          (let yr = (if 0 \<le> year \<and> year \<le> 99 then 1900 + year else year)
           in case makeDay yr m day of
                None \<Rightarrow> InvalidDate
              | Some dayNumber \<Rightarrow> timeClip (utc (dayNumber * msPerDay))))"

section \<open>parseDate\<close>

definition months :: "(string \<times> int) list" where
  "months =
     [(''enero'', 0), (''febrero'', 1), (''marzo'', 2), (''abril'', 3), (''mayo'', 4),
      (''junio'', 5), (''julio'', 6), (''agosto'', 7), (''septiembre'', 8), (''octubre'', 9),
      (''noviembre'', 10), (''diciembre'', 11)]"

text \<open>The first block of \<open>parseDate\<close>, for "dd de month de yyyy": \<^term>\<open>None\<close> when the
  block does not return. \<open>months[parts[1]]\<close> is a property read, and the block returns
  whenever what it reads is not \<open>undefined\<close>.\<close>

definition parseSpanish :: "(int \<Rightarrow> int) \<Rightarrow> string \<Rightarrow> jsdate option" where
  "parseSpanish utc dateString =
     (let parts = split (toLowerCase dateString) '' de ''
      in if length parts = 3 then
           (case (parseInt (parts ! 0), readProp months (parts ! 1), parseInt (parts ! 2)) of
              (Some day, Own month, Some year) \<Rightarrow> Some (newDate utc year (Some month) day)
            | (Some day, Inherited, Some year) \<Rightarrow> Some (newDate utc year None day)
            | _ \<Rightarrow> None)
         else None)"

text \<open>The second block, for "dd/mm/yyyy".\<close>

definition parseSlashed :: "(int \<Rightarrow> int) \<Rightarrow> string \<Rightarrow> jsdate option" where
  "parseSlashed utc dateString =
     (let dateParts = split dateString ''/''
      in if length dateParts = 3 then
           (case (parseInt (dateParts ! 0), parseInt (dateParts ! 1), parseInt (dateParts ! 2)) of
              (Some day, Some m, Some year) \<Rightarrow> Some (newDate utc year (Some (m - 1)) day)
            | _ \<Rightarrow> None)
         else None)"

text \<open>\<open>new Date(dateString)\<close> parses in a way the engine chooses for strings that are not in
  the ISO format; it is the parameter \<open>dateParse\<close>.\<close>

definition parseDate :: "(int \<Rightarrow> int) \<Rightarrow> (string \<Rightarrow> jsdate) \<Rightarrow> string \<Rightarrow> jsdate" where
  "parseDate utc dateParse dateString =
     (case parseSpanish utc dateString of
        Some d \<Rightarrow> d
      | None \<Rightarrow>
          (case parseSlashed utc dateString of
             Some d \<Rightarrow> d
           | None \<Rightarrow> dateParse dateString))"

text \<open>An engine whose local time zone is UTC and whose \<open>Date\<close> constructor rejects every
  string it is not required to accept; used for concrete evaluations.\<close>

definition utcZone :: "int \<Rightarrow> int" where
  "utcZone t = t"

definition rejectAll :: "string \<Rightarrow> jsdate" where
  "rejectAll s = InvalidDate"

section \<open>Data model\<close>

record Adjudicado =
  id_adjudicado :: int
  contrato_fk :: string
  codigo_fk :: int
  cantidad_minima :: int
  cantidad_maxima :: int
  cantidad_consumida :: int
  cantidad_disponible :: int
  estatus_cantidad :: string
  precio_unitario :: int
  iva :: int
  ieps :: int
  importe_maximo :: int

record Articulo =
  codigo :: int
  descripcion_articulo :: string
  unidad_medida :: string
  partida_especifica :: int
  precio_medio :: "int + string"
  ultima_fecha :: string
  estatus :: "string option"
  imagen_producto :: "string option"

record Contrato =
  id_contrato :: int
  licitacion_fk :: string
  contrato :: string
  proveedor_fk :: string
  monto_maximo :: int
  inicio_vigencia :: string
  fin_vigencia :: string

record Proveedor =
  id_proveedor :: int
  proveedor :: string
  domicilio :: string
  ciudad :: string
  correo_electronico :: "string option"
  telefono :: "string option"
  giro_comercial :: string
  logotipo_imagen :: string

section \<open>The join layer: useData\<close>

text \<open>\<open>new Map(entries)\<close> sets the entries one after the other, so a later entry replaces an
  earlier one with the same key; \<open>Map.prototype.get\<close> is application.\<close>

definition newMap :: "('k \<times> 'v) list \<Rightarrow> ('k \<rightharpoonup> 'v)" where
  "newMap entries = foldl (\<lambda>m (k, v). m(k \<mapsto> v)) Map.empty entries"

text \<open>The joined records spread the base record and add the resolved references; the
  supplier object of a joined contract is the field \<open>proveedor\<close> of the source, written
  \<open>proveedor_obj\<close> here because \<open>proveedor\<close> already names the supplier's name.\<close>

record AdjudicadoConArticulo = Adjudicado +
  articulo :: "Articulo option"

record ContratoConProveedor = Contrato +
  proveedor_obj :: "Proveedor option"
  adjudicados :: "AdjudicadoConArticulo list"

definition adjudicadosConArticulo ::
  "Articulo list \<Rightarrow> Adjudicado list \<Rightarrow> AdjudicadoConArticulo list" where
  "adjudicadosConArticulo articulos adjs =
     (let articulosMap = newMap (map (\<lambda>a. (codigo a, a)) articulos)
      in map (\<lambda>adj. Adjudicado.extend adj
                      (AdjudicadoConArticulo.fields (articulosMap (codigo_fk adj)))) adjs)"

definition contratosConProveedor ::
  "Articulo list \<Rightarrow> Proveedor list \<Rightarrow> Contrato list \<Rightarrow> Adjudicado list
     \<Rightarrow> ContratoConProveedor list" where
  "contratosConProveedor articulos proveedores contratos adjs =
     (let proveedoresMap = newMap (map (\<lambda>p. (proveedor p, p)) proveedores)
      in map (\<lambda>con. Contrato.extend con
                      (ContratoConProveedor.fields
                         (proveedoresMap (proveedor_fk con))
                         (filter (\<lambda>adj. contrato_fk adj = contrato con)
                            (adjudicadosConArticulo articulos adjs)))) contratos)"

section \<open>Array.prototype.sort\<close>

text \<open>
  The result of a comparison function is a number or \<open>NaN\<close> (\<^term>\<open>None\<close>), which the
  sort takes as 0. \<open>Array.prototype.sort(compareFn)\<close> is stable, and ECMA-262 determines
  its result where \<open>compareFn\<close> is a consistent comparison function for the elements of
  the array: every comparison is a number, \<open>a = a\<close>, \<open>a = b\<close> implies \<open>b = a\<close>, and each of
  \<open>=\<close>, \<open><\<close> and \<open>>\<close> is transitive, \<open>a < b\<close> standing for a negative, \<open>a = b\<close> for a zero
  and \<open>a > b\<close> for a positive comparison. The result then holds the elements in the order
  of the comparison, equal ones in their input order; it is computed here by inserting
  the elements, from the left, each one in front of the first element it is smaller
  than.

  Where the comparison function is not consistent the standard leaves the order to the
  engine: the result is the permutation of the array that the engine produces. The
  engine is the parameter \<open>engineSort\<close>; an array that it does not permute is left as it
  is.
\<close>

definition sortCompare :: "('a \<Rightarrow> 'a \<Rightarrow> int option) \<Rightarrow> 'a \<Rightarrow> 'a \<Rightarrow> int" where
  "sortCompare compareFn a b = (case compareFn a b of None \<Rightarrow> 0 | Some v \<Rightarrow> v)"

definition consistentOn :: "('a \<Rightarrow> 'a \<Rightarrow> int option) \<Rightarrow> 'a list \<Rightarrow> bool" where
  "consistentOn compareFn xs =
     list_all (\<lambda>a. list_all (\<lambda>b. list_all (\<lambda>c.
         compareFn a b \<noteq> None
         \<and> sortCompare compareFn a a = 0
         \<and> (sortCompare compareFn a b = 0 \<longrightarrow> sortCompare compareFn b a = 0)
         \<and> (sortCompare compareFn a b = 0 \<and> sortCompare compareFn b c = 0
              \<longrightarrow> sortCompare compareFn a c = 0)
         \<and> (sortCompare compareFn a b < 0 \<and> sortCompare compareFn b c < 0
              \<longrightarrow> sortCompare compareFn a c < 0)
         \<and> (sortCompare compareFn a b > 0 \<and> sortCompare compareFn b c > 0
              \<longrightarrow> sortCompare compareFn a c > 0)) xs) xs) xs"

fun insertSorted :: "('a \<Rightarrow> 'a \<Rightarrow> int) \<Rightarrow> 'a \<Rightarrow> 'a list \<Rightarrow> 'a list" where
  "insertSorted cmp x [] = [x]"
| "insertSorted cmp x (y # ys) =
     (if cmp x y < 0 then x # y # ys else y # insertSorted cmp x ys)"

definition insertionSort :: "('a \<Rightarrow> 'a \<Rightarrow> int) \<Rightarrow> 'a list \<Rightarrow> 'a list" where
  "insertionSort cmp xs = foldl (\<lambda>sorted x. insertSorted cmp x sorted) [] xs"

definition arraySort ::
  "(('a \<Rightarrow> 'a \<Rightarrow> int option) \<Rightarrow> 'a list \<Rightarrow> 'a list) \<Rightarrow> ('a \<Rightarrow> 'a \<Rightarrow> int option) \<Rightarrow> 'a list
     \<Rightarrow> 'a list" where
  "arraySort engineSort compareFn xs =
     (if consistentOn compareFn xs then insertionSort (sortCompare compareFn) xs
      else if mset (engineSort compareFn xs) = mset xs then engineSort compareFn xs
      else xs)"

section \<open>Dashboard aggregates\<close>

subsection \<open>Contract status\<close>

record StatusCounts =
  vigente :: nat
  expirado :: nat

text \<open>\<open>now\<close> is the time value of \<open>new Date()\<close>; \<open>endDate > now\<close> compares time values.\<close>

definition countStatus ::
  "(int \<Rightarrow> int) \<Rightarrow> (string \<Rightarrow> jsdate) \<Rightarrow> int \<Rightarrow> StatusCounts \<Rightarrow> 'a Contrato_scheme
     \<Rightarrow> StatusCounts" where
  "countStatus utc dateParse now statusCounts c =
     (case parseDate utc dateParse (fin_vigencia c) of
        InvalidDate \<Rightarrow> statusCounts
      | TimeValue endDate \<Rightarrow>
          if endDate > now then statusCounts\<lparr>vigente := vigente statusCounts + 1\<rparr>
          else statusCounts\<lparr>expirado := expirado statusCounts + 1\<rparr>)"

definition contractStatusData ::
  "(int \<Rightarrow> int) \<Rightarrow> (string \<Rightarrow> jsdate) \<Rightarrow> int \<Rightarrow> 'a Contrato_scheme list
     \<Rightarrow> (string \<times> nat) list" where
  "contractStatusData utc dateParse now contratos =
     (let statusCounts =
            foldl (countStatus utc dateParse now) \<lparr>vigente = 0, expirado = 0\<rparr> contratos
      in [(''Vigente'', vigente statusCounts), (''Expirado'', expirado statusCounts)])"

subsection \<open>Spending by supplier\<close>

text \<open>
  \<open>spending\<close> is an object literal used as a dictionary: its own properties are kept in
  creation order. A value is a number, or the string that \<open>+\<close> produces when its left
  operand is not a number (\<^term>\<open>Text\<close>; such a string is never the decimal form of a
  number).
\<close>

datatype spendval = Amount int | Text

text \<open>\<open>spending[key] = (spending[key] || 0) + monto\<close>. An own number is kept unless it is
  0, which \<open>||\<close> replaces by 0; \<open>undefined\<close> gives 0; an inherited member of
  \<open>Object.prototype\<close> is an object, hence truthy, and \<open>+\<close> turns it into a string, as it
  does with a string already stored. The assignment creates or replaces the own
  property, except for the key \<open>__proto__\<close>, whose setter ignores a value that is not an
  object.\<close>

definition addSpending :: "(string \<times> spendval) list \<Rightarrow> string \<Rightarrow> int \<Rightarrow> (string \<times> spendval) list"
  where
  "addSpending spending key monto =
     (let v = (case readProp spending key of
                 Undefined \<Rightarrow> Amount (0 + monto)
               | Own (Amount n) \<Rightarrow> Amount ((if n = 0 then 0 else n) + monto)
               | Own Text \<Rightarrow> Text
               | Inherited \<Rightarrow> Text)
      in if key = ''__proto__'' then spending
         else if key \<in> fst ` set spending
           then map (\<lambda>(k, w). if k = key then (k, v) else (k, w)) spending
           else spending @ [(key, v)])"

definition supplierKey :: "ContratoConProveedor \<Rightarrow> string" where
  "supplierKey c = (case proveedor_obj c of Some p \<Rightarrow> proveedor p | None \<Rightarrow> proveedor_fk c)"

definition spendingOf :: "ContratoConProveedor list \<Rightarrow> (string \<times> spendval) list" where
  "spendingOf contratos =
     foldl (\<lambda>spending c. addSpending spending (supplierKey c) (monto_maximo c)) [] contratos"

text \<open>\<open>Object.entries\<close> lists the own properties whose key is an array index first, in
  ascending numeric order, and then the other keys in creation order.\<close>

definition isArrayIndex :: "string \<Rightarrow> bool" where
  "isArrayIndex k =
     (k \<noteq> [] \<and> list_all isDigit k \<and> (hd k \<noteq> CHR ''0'' \<or> k = ''0'')
        \<and> decimalValue k < 4294967295)"

definition objectEntries :: "(string \<times> 'a) list \<Rightarrow> (string \<times> 'a) list" where
  "objectEntries obj =
     sort_key (\<lambda>e. decimalValue (fst e)) (filter (\<lambda>e. isArrayIndex (fst e)) obj)
       @ filter (\<lambda>e. \<not> isArrayIndex (fst e)) obj"

record SpendEntry =
  name :: string
  amount :: spendval

text \<open>The comparison function \<open>(a, b) => b.value - a.value\<close>; the field \<open>value\<close> is
  \<open>amount\<close> here. With a string operand the difference is \<open>NaN\<close>.\<close>

definition compareSpending :: "SpendEntry \<Rightarrow> SpendEntry \<Rightarrow> int option" where
  "compareSpending a b =
     (case (amount b, amount a) of (Amount x, Amount y) \<Rightarrow> Some (x - y) | _ \<Rightarrow> None)"

definition spendingBySupplierData ::
  "((SpendEntry \<Rightarrow> SpendEntry \<Rightarrow> int option) \<Rightarrow> SpendEntry list \<Rightarrow> SpendEntry list)
     \<Rightarrow> ContratoConProveedor list \<Rightarrow> SpendEntry list" where
  "spendingBySupplierData engineSort contratos =
     take 10 (arraySort engineSort compareSpending
       (map (\<lambda>(k, v). \<lparr>name = k, amount = v\<rparr>) (objectEntries (spendingOf contratos))))"

section \<open>The sortable table\<close>

text \<open>
  A table row is an object; its properties are listed with their values. A value is
  \<open>undefined\<close>, \<open>null\<close>, a boolean, a number, a string, or an object or array, which
  carries the text that \<open>String\<close> gives for it. \<open>item[key]\<close> is \<open>undefined\<close> for a key that
  the row does not have; the keys are the column names of the table. The numbers are
  integers: fractions, infinities and \<open>NaN\<close> are left out.
\<close>

datatype jsval = JUndefined | JNull | JBool bool | JNum int | JStr string | JObj string

type_synonym row = "(string \<times> jsval) list"

definition getProp :: "row \<Rightarrow> string \<Rightarrow> jsval" where
  "getProp item k = (case map_of item k of Some v \<Rightarrow> v | None \<Rightarrow> JUndefined)"

datatype SortDirection = Asc | Desc

record SortConfig =
  key :: string
  direction :: SortDirection

text \<open>The comparison function of \<open>useSortableData\<close>, on the two values at the sort key.\<close>

definition compareValues :: "SortDirection \<Rightarrow> jsval \<Rightarrow> jsval \<Rightarrow> int" where
  "compareValues dir aValue bValue =
     (if aValue = JNull \<or> aValue = JUndefined then 1
      else if bValue = JNull \<or> bValue = JUndefined then - 1
      else (case (aValue, bValue) of
              (JStr x, JStr y) \<Rightarrow>
                if toLowerCase x < toLowerCase y then (if dir = Asc then - 1 else 1)
                else if toLowerCase x > toLowerCase y then (if dir = Asc then 1 else - 1)
                else 0
            | (JNum x, JNum y) \<Rightarrow>
                if x < y then (if dir = Asc then - 1 else 1)
                else if x > y then (if dir = Asc then 1 else - 1)
                else 0
            | _ \<Rightarrow> 0))"

definition compareRows :: "SortConfig \<Rightarrow> row \<Rightarrow> row \<Rightarrow> int" where
  "compareRows sortConfig a b =
     compareValues (direction sortConfig) (getProp a (key sortConfig)) (getProp b (key sortConfig))"

text \<open>\<open>sortedItems\<close>: a copy of the items, sorted with the comparison function when a
  sort configuration is set. The comparison function never gives \<open>NaN\<close>.\<close>

definition sortedItems ::
  "((row \<Rightarrow> row \<Rightarrow> int option) \<Rightarrow> row list \<Rightarrow> row list) \<Rightarrow> row list \<Rightarrow> SortConfig option
     \<Rightarrow> row list" where
  "sortedItems engineSort items sortConfig =
     (case sortConfig of
        None \<Rightarrow> items
      | Some cfg \<Rightarrow> arraySort engineSort (\<lambda>a b. Some (compareRows cfg a b)) items)"

definition requestSort :: "SortConfig option \<Rightarrow> string \<Rightarrow> SortConfig option" where
  "requestSort sortConfig k =
     Some \<lparr>key = k,
           direction =
             (case sortConfig of
                None \<Rightarrow> Asc
              | Some cfg \<Rightarrow> if key cfg = k \<and> direction cfg = Asc then Desc else Asc)\<rparr>"

text \<open>The sort state after a sequence of header clicks, from the initial \<open>null\<close>.\<close>

definition afterClicks :: "string list \<Rightarrow> SortConfig option" where
  "afterClicks ks = foldl requestSort None ks"

subsection \<open>Search\<close>

text \<open>\<open>String(value)\<close>.\<close>

fun stringOf :: "jsval \<Rightarrow> string" where
  "stringOf JUndefined = ''undefined''"
| "stringOf JNull = ''null''"
| "stringOf (JBool b) = (if b then ''true'' else ''false'')"
| "stringOf (JNum n) = numberToString n"
| "stringOf (JStr s) = s"
| "stringOf (JObj s) = s"

definition matchesTerm :: "string \<Rightarrow> string list \<Rightarrow> row \<Rightarrow> bool" where
  "matchesTerm lowercasedTerm searchKeys item =
     list_ex (\<lambda>k. let v = getProp item k
                  in v \<noteq> JNull \<and> v \<noteq> JUndefined
                       \<and> includes_str (toLowerCase (stringOf v)) lowercasedTerm) searchKeys"

definition filteredData :: "row list \<Rightarrow> string \<Rightarrow> string list \<Rightarrow> row list" where
  "filteredData sortedData searchTerm searchKeys =
     (if searchTerm = [] then sortedData
      else filter (matchesTerm (toLowerCase searchTerm) searchKeys) sortedData)"

section \<open>The natural-language query bridge\<close>

text \<open>
  The text-generation service is outside the program. Its reply to the request number
  \<open>n\<close> is \<open>service n\<close>: the promise of \<open>generateContent\<close> is rejected with an error, of
  which the message is kept, or resolved with a response whose \<open>text\<close> is a string or
  \<open>undefined\<close>. \<open>JSON.parse\<close> is the parameter \<open>jsonParse\<close>, which returns the parsed
  value or the message of its \<open>SyntaxError\<close>. A thrown \<open>Error\<close> is \<^term>\<open>Inl\<close> of its
  message.
\<close>

datatype outcome = Rejected string | Resolved "string option"

definition fence :: string where
  "fence = replicate 3 (CHR 0x60)"

text \<open>
  The second capture group of \<open>fenceRegex\<close>, which is
  \<open>^ fence (\w*)? \s* \n? (.*?) \n? \s* fence $\<close> with the flag \<open>s\<close>, or \<^term>\<open>None\<close> when
  the regular expression does not match. It matches exactly the strings that start and
  end with a fence, the two not overlapping. The greedy \<open>\w*\<close> and \<open>\s*\<close> take the word
  characters and then the white space that follow the opening fence (neither can take
  a backquote, so they stop before the closing fence); the lazy group then takes the
  fewest characters after which only white space is left before the closing fence.
\<close>

definition fenceMatch :: "string \<Rightarrow> string option" where
  "fenceMatch s =
     (if prefix fence s \<and> suffix fence s \<and> 6 \<le> length s then
        (let inner = take (length s - 6) (drop 3 s);
             rest = dropWhile isWhiteSpace (dropWhile isWordChar inner)
         in Some (rev (dropWhile isWhiteSpace (rev rest))))
      else None)"

definition stripFence :: "string \<Rightarrow> string" where
  "stripFence jsonStr =
     (case fenceMatch jsonStr of
        Some g \<Rightarrow> if g \<noteq> [] then trim g else jsonStr
      | None \<Rightarrow> jsonStr)"

definition failureMessage :: string where
  "failureMessage =
     ''Failed to get a valid response from the AI. The AI may have returned a non-JSON response or an error occurred.''"

text \<open>\<open>queryDataWithGemini\<close> sends one request; \<open>calls\<close> counts the requests sent so far.
  Whatever is thrown inside its \<open>try\<close> block is caught, logged to the console, and
  replaced by a new \<open>Error\<close> with the fixed message.\<close>

definition queryDataWithGemini ::
  "(string \<Rightarrow> string + 'j) \<Rightarrow> (nat \<Rightarrow> outcome) \<Rightarrow> nat \<Rightarrow> (string + 'j) \<times> nat" where
  "queryDataWithGemini jsonParse service calls =
     (case service calls of
        Rejected e \<Rightarrow> Inl failureMessage
      | Resolved None \<Rightarrow> Inl failureMessage
      | Resolved (Some text) \<Rightarrow>
          (case jsonParse (stripFence (trim text)) of
             Inl e \<Rightarrow> Inl failureMessage
           | Inr v \<Rightarrow> Inr v),
      calls + 1)"

record 'j ExplorerState =
  query :: string
  isLoading :: bool
  result :: "'j option"
  error :: "string option"

definition fallbackMessage :: string where
  "fallbackMessage =
     ''Ocurri'' @ [CHR 0xC3, CHR 0xB3] @ '' un error al procesar la solicitud.''"

text \<open>\<open>handleQuery\<close>, from the click to the end of its \<open>finally\<close> block.\<close>

definition handleQuery ::
  "(string \<Rightarrow> string + 'j) \<Rightarrow> (nat \<Rightarrow> outcome) \<Rightarrow> 'j ExplorerState \<times> nat
     \<Rightarrow> 'j ExplorerState \<times> nat" where
  "handleQuery jsonParse service sc =
     (let st = fst sc; calls = snd sc
      in if trim (query st) = [] then (st, calls)
         else
           (let started = st\<lparr>isLoading := True, error := None, result := None\<rparr>;
                reply = queryDataWithGemini jsonParse service calls
            in (case fst reply of
                  Inr aiResult \<Rightarrow> started\<lparr>result := Some aiResult, isLoading := False\<rparr>
                | Inl message \<Rightarrow>
                    started\<lparr>error := Some (if message = [] then fallbackMessage else message),
                            isLoading := False\<rparr>,
                snd reply)))"

section \<open>Sample data\<close>

definition sampleArticulo :: "int \<Rightarrow> string \<Rightarrow> Articulo" where
  "sampleArticulo c d =
     \<lparr>codigo = c, descripcion_articulo = d, unidad_medida = ''KG'', partida_especifica = 2211,
      precio_medio = Inl 25, ultima_fecha = ''01/02/2024'', estatus = None,
      imagen_producto = None\<rparr>"

definition sampleProveedor :: "int \<Rightarrow> string \<Rightarrow> Proveedor" where
  "sampleProveedor i n =
     \<lparr>id_proveedor = i, proveedor = n, domicilio = ''Av. Juarez 10'', ciudad = ''Guadalajara'',
      correo_electronico = None, telefono = None, giro_comercial = ''Abarrotes'',
      logotipo_imagen = ''logo.png''\<rparr>"

definition sampleContrato :: "int \<Rightarrow> string \<Rightarrow> string \<Rightarrow> int \<Rightarrow> string \<Rightarrow> Contrato" where
  "sampleContrato i c p m f =
     \<lparr>id_contrato = i, licitacion_fk = ''LPL-01'', contrato = c, proveedor_fk = p,
      monto_maximo = m, inicio_vigencia = ''01/01/2019'', fin_vigencia = f\<rparr>"

definition sampleAdjudicado :: "int \<Rightarrow> string \<Rightarrow> int \<Rightarrow> Adjudicado" where
  "sampleAdjudicado i c a =
     \<lparr>id_adjudicado = i, contrato_fk = c, codigo_fk = a, cantidad_minima = 1,
      cantidad_maxima = 10, cantidad_consumida = 0, cantidad_disponible = 10,
      estatus_cantidad = ''Disponible'', precio_unitario = 25, iva = 0, ieps = 0,
      importe_maximo = 250\<rparr>"

definition sampleArticulos :: "Articulo list" where
  "sampleArticulos = [sampleArticulo 101 ''Arroz'', sampleArticulo 102 ''Frijol'']"

definition sampleProveedores :: "Proveedor list" where
  "sampleProveedores = [sampleProveedor 1 ''P1'', sampleProveedor 2 ''P2'']"

definition sampleContratos :: "Contrato list" where
  "sampleContratos =
     [sampleContrato 1 ''C1'' ''P1'' 100 ''01/01/2020'',
      sampleContrato 2 ''C2'' ''P9'' 50 ''sin fecha'',
      sampleContrato 3 ''C3'' ''P1'' 200 ''15 de enero de 2024'']"

definition sampleAdjudicados :: "Adjudicado list" where
  "sampleAdjudicados =
     [sampleAdjudicado 1 ''C1'' 101, sampleAdjudicado 2 ''C1'' 999, sampleAdjudicado 3 ''C3'' 102]"

definition sampleRow :: "string \<Rightarrow> int \<Rightarrow> row" where
  "sampleRow c m = [(''contrato'', JStr c), (''monto_maximo'', JNum m)]"

definition sampleRows :: "row list" where
  "sampleRows = [sampleRow ''C1'' 200, sampleRow ''C2'' 100, sampleRow ''C3'' 300]"

definition tiedRows :: "row list" where
  "tiedRows = [sampleRow ''C1'' 100, sampleRow ''C2'' 100]"

definition byMonto :: "SortDirection \<Rightarrow> SortConfig option" where
  "byMonto dir = Some \<lparr>key = ''monto_maximo'', direction = dir\<rparr>"

definition orderedRows :: "row list" where
  "orderedRows = [sampleRow ''C2'' 100, sampleRow ''C1'' 200, sampleRow ''C3'' 300]"

text \<open>An engine for the examples: it sorts by insertion whatever the comparison
  function is.\<close>

definition insertionEngine :: "('a \<Rightarrow> 'a \<Rightarrow> int option) \<Rightarrow> 'a list \<Rightarrow> 'a list" where
  "insertionEngine compareFn xs = insertionSort (sortCompare compareFn) xs"

text \<open>A stand-in for \<open>JSON.parse\<close> in the examples: text in square brackets or braces is
  accepted and returned as it is, anything else is a syntax error.\<close>

definition sampleJsonParse :: "string \<Rightarrow> string + string" where
  "sampleJsonParse s =
     (if s \<noteq> [] \<and> (hd s = CHR ''['' \<or> hd s = CHR ''{'') then Inr s
      else Inl ''Unexpected token in JSON at position 0'')"

definition failingService :: "nat \<Rightarrow> outcome" where
  "failingService n = Rejected ''fetch failed''"

definition proseService :: "nat \<Rightarrow> outcome" where
  "proseService n = Resolved (Some ''No data found.'')"

definition fencedText :: string where
  "fencedText = fence @ ''json'' @ [CHR 0x0A] @ ''[1, 2]'' @ [CHR 0x0A] @ fence"

definition fencedService :: "nat \<Rightarrow> outcome" where
  "fencedService n = Resolved (Some fencedText)"

definition sampleState :: "string ExplorerState" where
  "sampleState = \<lparr>query = ''contratos vigentes'', isLoading = False, result = None, error = None\<rparr>"

section \<open>The date-parsing policy as specified\<close>

text \<open>
  The date-parsing policy in the words of the specification, to be compared with
  \<^const>\<open>parseDate\<close>: the lower-cased input is split on " de "; three parts that are a
  numeric day, a month name of the 12-entry table and a numeric year give the calendar
  date; otherwise the input is split on "/", and three numeric parts give the date of
  year, month - 1 and day; otherwise the string goes to the generic parser.
\<close>

definition parseDatePolicy :: "(int \<Rightarrow> int) \<Rightarrow> (string \<Rightarrow> jsdate) \<Rightarrow> string \<Rightarrow> jsdate" where
  "parseDatePolicy utc dateParse s =
     (let parts = split (toLowerCase s) '' de ''
      in case (if length parts = 3
               then (parseInt (parts ! 0), map_of months (parts ! 1), parseInt (parts ! 2))
               else (None, None, None)) of
           (Some day, Some month, Some year) \<Rightarrow> newDate utc year (Some month) day
         | _ \<Rightarrow>
           (let dateParts = split s ''/''
            in case (if length dateParts = 3
                     then (parseInt (dateParts ! 0), parseInt (dateParts ! 1),
                           parseInt (dateParts ! 2))
                     else (None, None, None)) of
                 (Some day, Some m, Some year) \<Rightarrow> newDate utc year (Some (m - 1)) day
               | _ \<Rightarrow> dateParse s))"

section \<open>Case-insensitive comparison as specified\<close>

text \<open>
  Two strings are the same up to case when they have the same length and, position by
  position, the same character or the upper-case and the lower-case form of one letter
  from A to Z. A case-insensitive comparison gives the same result for strings that are
  the same up to case.
\<close>

definition sameLetter :: "char \<Rightarrow> char \<Rightarrow> bool" where
  "sameLetter c d =
     (c = d
      \<or> (c, d) \<in> set (zip ''ABCDEFGHIJKLMNOPQRSTUVWXYZ'' ''abcdefghijklmnopqrstuvwxyz'')
      \<or> (d, c) \<in> set (zip ''ABCDEFGHIJKLMNOPQRSTUVWXYZ'' ''abcdefghijklmnopqrstuvwxyz''))"

definition equalIgnoringCase :: "string \<Rightarrow> string \<Rightarrow> bool" where
  "equalIgnoringCase x y = list_all2 sameLetter x y"

section \<open>Sample contracts with unresolved suppliers\<close>

text \<open>Joined contracts whose supplier key is not in the supplier table.\<close>

definition unresolvedContratos :: "(string \<times> int) list \<Rightarrow> ContratoConProveedor list" where
  "unresolvedContratos kms =
     contratosConProveedor sampleArticulos sampleProveedores
       (map (\<lambda>(k, m). sampleContrato 7 ''C7'' k m ''01/01/2020'') kms) sampleAdjudicados"

section \<open>Properties of the join layer\<close>

lemma newMap_map_of: "newMap es = map_of (rev es)"
proof -
  have "foldl (\<lambda>m (k, v). m(k \<mapsto> v)) m0 es = m0 ++ map_of (rev es)" for m0 :: "'a \<rightharpoonup> 'b"
    by (induction es arbitrary: m0) (auto simp: map_add_def fun_eq_iff split: option.splits)
  then show ?thesis by (simp add: newMap_def)
qed

lemma newMap_keyed_None:
  "(newMap (map (\<lambda>a. (f a, a)) xs) k = None) = (\<forall>a\<in>set xs. f a \<noteq> k)"
  by (auto simp: newMap_map_of map_of_eq_None_iff image_iff rev_map[symmetric])

lemma newMap_keyed_Some:
  "newMap (map (\<lambda>a. (f a, a)) xs) k = Some a \<Longrightarrow> a \<in> set xs \<and> f a = k"
  by (auto simp: newMap_map_of dest!: map_of_SomeD)

lemma newMap_keyed_distinct:
  assumes "distinct (map f xs)" "a \<in> set xs" "f a = k"
  shows "newMap (map (\<lambda>a. (f a, a)) xs) k = Some a"
proof -
  have "distinct (map fst (rev (map (\<lambda>a. (f a, a)) xs)))"
    using assms(1) by (simp add: rev_map[symmetric] comp_def)
  moreover have "(k, a) \<in> set (rev (map (\<lambda>a. (f a, a)) xs))"
    using assms(2,3) by auto
  ultimately show ?thesis
    unfolding newMap_map_of by (rule map_of_is_SomeI)
qed

lemma newMap_keyed_last:
  "newMap (map (\<lambda>a. (f a, a)) xs) k =
     (case filter (\<lambda>a. f a = k) xs of [] \<Rightarrow> None | ys \<Rightarrow> Some (last ys))"
  by (induction xs rule: rev_induct) (auto simp: newMap_map_of split: list.splits)

lemma award_nth:
  "i < length adjs \<Longrightarrow>
     adjudicadosConArticulo articulos adjs ! i
       = Adjudicado.extend (adjs ! i)
           (AdjudicadoConArticulo.fields
              (newMap (map (\<lambda>a. (codigo a, a)) articulos) (codigo_fk (adjs ! i))))"
  by (simp add: adjudicadosConArticulo_def)

lemma contract_nth:
  "i < length contratos \<Longrightarrow>
     contratosConProveedor articulos proveedores contratos adjs ! i
       = Contrato.extend (contratos ! i)
           (ContratoConProveedor.fields
              (newMap (map (\<lambda>p. (proveedor p, p)) proveedores) (proveedor_fk (contratos ! i)))
              (filter (\<lambda>adj. contrato_fk adj = contrato (contratos ! i))
                 (adjudicadosConArticulo articulos adjs)))"
  by (simp add: contratosConProveedor_def)

lemma extend_award:
  "Adjudicado.truncate (Adjudicado.extend adj (AdjudicadoConArticulo.fields x)) = adj"
  "articulo (Adjudicado.extend adj (AdjudicadoConArticulo.fields x)) = x"
  "contrato_fk (Adjudicado.extend adj (AdjudicadoConArticulo.fields x)) = contrato_fk adj"
  "id_adjudicado (Adjudicado.extend adj (AdjudicadoConArticulo.fields x)) = id_adjudicado adj"
  by (simp_all add: Adjudicado.defs AdjudicadoConArticulo.defs)

lemma extend_contract:
  "Contrato.truncate (Contrato.extend con (ContratoConProveedor.fields p as)) = con"
  "proveedor_obj (Contrato.extend con (ContratoConProveedor.fields p as)) = p"
  "adjudicados (Contrato.extend con (ContratoConProveedor.fields p as)) = as"
  "proveedor_fk (Contrato.extend con (ContratoConProveedor.fields p as)) = proveedor_fk con"
  "monto_maximo (Contrato.extend con (ContratoConProveedor.fields p as)) = monto_maximo con"
  "fin_vigencia (Contrato.extend con (ContratoConProveedor.fields p as)) = fin_vigencia con"
  "contrato (Contrato.extend con (ContratoConProveedor.fields p as)) = contrato con"
  by (simp_all add: Contrato.defs ContratoConProveedor.defs)

lemma joined_award:
  assumes "i < length adjs"
  shows "Adjudicado.truncate (adjudicadosConArticulo articulos adjs ! i) = adjs ! i"
    and "(articulo (adjudicadosConArticulo articulos adjs ! i) = None)
           = (\<forall>a \<in> set articulos. codigo a \<noteq> codigo_fk (adjs ! i))"
    and "articulo (adjudicadosConArticulo articulos adjs ! i) = Some a
           \<Longrightarrow> a \<in> set articulos \<and> codigo a = codigo_fk (adjs ! i)"
    and "distinct (map codigo articulos) \<Longrightarrow> a \<in> set articulos
           \<Longrightarrow> codigo a = codigo_fk (adjs ! i)
           \<Longrightarrow> articulo (adjudicadosConArticulo articulos adjs ! i) = Some a"
    and "articulo (adjudicadosConArticulo articulos adjs ! i)
           = (case filter (\<lambda>a. codigo a = codigo_fk (adjs ! i)) articulos of
                [] \<Rightarrow> None | ys \<Rightarrow> Some (last ys))"
proof -
  note nth = award_nth [OF assms, of articulos]
  show "Adjudicado.truncate (adjudicadosConArticulo articulos adjs ! i) = adjs ! i"
    by (simp only: nth extend_award)
  show "(articulo (adjudicadosConArticulo articulos adjs ! i) = None)
           = (\<forall>a \<in> set articulos. codigo a \<noteq> codigo_fk (adjs ! i))"
    by (simp only: nth extend_award newMap_keyed_None)
  show "articulo (adjudicadosConArticulo articulos adjs ! i) = Some a
           \<Longrightarrow> a \<in> set articulos \<and> codigo a = codigo_fk (adjs ! i)"
    unfolding nth extend_award by (rule newMap_keyed_Some)
  show "distinct (map codigo articulos) \<Longrightarrow> a \<in> set articulos
           \<Longrightarrow> codigo a = codigo_fk (adjs ! i)
           \<Longrightarrow> articulo (adjudicadosConArticulo articulos adjs ! i) = Some a"
    unfolding nth extend_award by (rule newMap_keyed_distinct)
  show "articulo (adjudicadosConArticulo articulos adjs ! i)
           = (case filter (\<lambda>a. codigo a = codigo_fk (adjs ! i)) articulos of
                [] \<Rightarrow> None | ys \<Rightarrow> Some (last ys))"
    unfolding nth extend_award by (rule newMap_keyed_last)
qed

lemma joined_contract:
  assumes "i < length contratos"
  shows "Contrato.truncate (contratosConProveedor articulos proveedores contratos adjs ! i)
           = contratos ! i"
    and "proveedor_fk (contratosConProveedor articulos proveedores contratos adjs ! i)
           = proveedor_fk (contratos ! i)"
    and "(proveedor_obj (contratosConProveedor articulos proveedores contratos adjs ! i) = None)
           = (\<forall>s \<in> set proveedores. proveedor s \<noteq> proveedor_fk (contratos ! i))"
    and "proveedor_obj (contratosConProveedor articulos proveedores contratos adjs ! i) = Some s
           \<Longrightarrow> s \<in> set proveedores \<and> proveedor s = proveedor_fk (contratos ! i)"
    and "distinct (map proveedor proveedores) \<Longrightarrow> s \<in> set proveedores
           \<Longrightarrow> proveedor s = proveedor_fk (contratos ! i)
           \<Longrightarrow> proveedor_obj (contratosConProveedor articulos proveedores contratos adjs ! i)
                 = Some s"
    and "proveedor_obj (contratosConProveedor articulos proveedores contratos adjs ! i)
           = (case filter (\<lambda>s. proveedor s = proveedor_fk (contratos ! i)) proveedores of
                [] \<Rightarrow> None | ys \<Rightarrow> Some (last ys))"
    and "adjudicados (contratosConProveedor articulos proveedores contratos adjs ! i)
           = filter (\<lambda>j. contrato_fk j = contrato (contratos ! i))
               (adjudicadosConArticulo articulos adjs)"
proof -
  note nth = contract_nth [OF assms, of articulos proveedores adjs]
  show "Contrato.truncate (contratosConProveedor articulos proveedores contratos adjs ! i)
           = contratos ! i"
    by (simp only: nth extend_contract)
  show "proveedor_fk (contratosConProveedor articulos proveedores contratos adjs ! i)
           = proveedor_fk (contratos ! i)"
    by (simp only: nth extend_contract)
  show "(proveedor_obj (contratosConProveedor articulos proveedores contratos adjs ! i) = None)
           = (\<forall>s \<in> set proveedores. proveedor s \<noteq> proveedor_fk (contratos ! i))"
    by (simp only: nth extend_contract newMap_keyed_None)
  show "proveedor_obj (contratosConProveedor articulos proveedores contratos adjs ! i) = Some s
           \<Longrightarrow> s \<in> set proveedores \<and> proveedor s = proveedor_fk (contratos ! i)"
    unfolding nth extend_contract by (rule newMap_keyed_Some)
  show "distinct (map proveedor proveedores) \<Longrightarrow> s \<in> set proveedores
           \<Longrightarrow> proveedor s = proveedor_fk (contratos ! i)
           \<Longrightarrow> proveedor_obj (contratosConProveedor articulos proveedores contratos adjs ! i)
                 = Some s"
    unfolding nth extend_contract by (rule newMap_keyed_distinct)
  show "proveedor_obj (contratosConProveedor articulos proveedores contratos adjs ! i)
           = (case filter (\<lambda>s. proveedor s = proveedor_fk (contratos ! i)) proveedores of
                [] \<Rightarrow> None | ys \<Rightarrow> Some (last ys))"
    unfolding nth extend_contract by (rule newMap_keyed_last)
  show "adjudicados (contratosConProveedor articulos proveedores contratos adjs ! i)
           = filter (\<lambda>j. contrato_fk j = contrato (contratos ! i))
               (adjudicadosConArticulo articulos adjs)"
    by (simp only: nth extend_contract)
qed

text \<open>
  Claim C1. For every input (articulos, proveedores, contratos, adjudicados) the join
  layer returns one joined award per award and one joined contract per contract, in
  input order. The joined award keeps the award's fields, and its \<open>articulo\<close> is absent
  exactly when no article has the award's \<open>codigo_fk\<close> as its \<open>codigo\<close>; otherwise it is
  an article of the input with that \<open>codigo\<close> (the last one in the table; the only one
  when the codes are unique, as for a key). The joined contract keeps the contract's
  fields, \<open>proveedor_fk\<close> among them; its supplier is resolved in the same way from
  \<open>proveedor_fk\<close> and the suppliers' \<open>proveedor\<close>; and its \<open>adjudicados\<close> are the joined
  awards whose \<open>contrato_fk\<close> equals its \<open>contrato\<close>, in input order.
\<close>

theorem useData_joins:
  "length (adjudicadosConArticulo articulos adjs) = length adjs \<and>
   (\<forall>i < length adjs.
      Adjudicado.truncate (adjudicadosConArticulo articulos adjs ! i) = adjs ! i \<and>
      ((articulo (adjudicadosConArticulo articulos adjs ! i) = None)
         = (\<forall>a \<in> set articulos. codigo a \<noteq> codigo_fk (adjs ! i))) \<and>
      (\<forall>a. articulo (adjudicadosConArticulo articulos adjs ! i) = Some a
         \<longrightarrow> a \<in> set articulos \<and> codigo a = codigo_fk (adjs ! i)) \<and>
      (distinct (map codigo articulos) \<longrightarrow>
         (\<forall>a \<in> set articulos. codigo a = codigo_fk (adjs ! i)
            \<longrightarrow> articulo (adjudicadosConArticulo articulos adjs ! i) = Some a)) \<and>
      articulo (adjudicadosConArticulo articulos adjs ! i)
        = (case filter (\<lambda>a. codigo a = codigo_fk (adjs ! i)) articulos of
             [] \<Rightarrow> None | ys \<Rightarrow> Some (last ys))) \<and>
   length (contratosConProveedor articulos proveedores contratos adjs) = length contratos \<and>
   (\<forall>i < length contratos.
      Contrato.truncate (contratosConProveedor articulos proveedores contratos adjs ! i)
        = contratos ! i \<and>
      proveedor_fk (contratosConProveedor articulos proveedores contratos adjs ! i)
        = proveedor_fk (contratos ! i) \<and>
      ((proveedor_obj (contratosConProveedor articulos proveedores contratos adjs ! i) = None)
         = (\<forall>s \<in> set proveedores. proveedor s \<noteq> proveedor_fk (contratos ! i))) \<and>
      (\<forall>s. proveedor_obj (contratosConProveedor articulos proveedores contratos adjs ! i) = Some s
         \<longrightarrow> s \<in> set proveedores \<and> proveedor s = proveedor_fk (contratos ! i)) \<and>
      (distinct (map proveedor proveedores) \<longrightarrow>
         (\<forall>s \<in> set proveedores. proveedor s = proveedor_fk (contratos ! i)
            \<longrightarrow> proveedor_obj (contratosConProveedor articulos proveedores contratos adjs ! i)
                  = Some s)) \<and>
      proveedor_obj (contratosConProveedor articulos proveedores contratos adjs ! i)
        = (case filter (\<lambda>s. proveedor s = proveedor_fk (contratos ! i)) proveedores of
             [] \<Rightarrow> None | ys \<Rightarrow> Some (last ys)) \<and>
      adjudicados (contratosConProveedor articulos proveedores contratos adjs ! i)
        = filter (\<lambda>j. contrato_fk j = contrato (contratos ! i))
            (adjudicadosConArticulo articulos adjs))"
proof (intro conjI allI impI ballI)
  show "length (adjudicadosConArticulo articulos adjs) = length adjs"
    by (simp add: adjudicadosConArticulo_def)
  show "length (contratosConProveedor articulos proveedores contratos adjs) = length contratos"
    by (simp add: contratosConProveedor_def)
next
  fix i assume "i < length adjs"
  note ja = joined_award [OF this, where articulos = articulos]
  show "Adjudicado.truncate (adjudicadosConArticulo articulos adjs ! i) = adjs ! i"
    by (rule ja(1))
  show "(articulo (adjudicadosConArticulo articulos adjs ! i) = None)
         = (\<forall>a \<in> set articulos. codigo a \<noteq> codigo_fk (adjs ! i))"
    by (rule ja(2))
  show "articulo (adjudicadosConArticulo articulos adjs ! i)
        = (case filter (\<lambda>a. codigo a = codigo_fk (adjs ! i)) articulos of
             [] \<Rightarrow> None | ys \<Rightarrow> Some (last ys))"
    by (rule ja(5))
  show "a \<in> set articulos" "codigo a = codigo_fk (adjs ! i)"
    if "articulo (adjudicadosConArticulo articulos adjs ! i) = Some a" for a
    using ja(3) [OF that] by simp_all
  show "articulo (adjudicadosConArticulo articulos adjs ! i) = Some a"
    if "distinct (map codigo articulos)" "a \<in> set articulos" "codigo a = codigo_fk (adjs ! i)"
    for a
    using that by (rule ja(4))
next
  fix i assume "i < length contratos"
  note jc = joined_contract [OF this, where articulos = articulos and proveedores = proveedores and adjs = adjs]
  show "Contrato.truncate (contratosConProveedor articulos proveedores contratos adjs ! i)
        = contratos ! i"
    by (rule jc(1))
  show "proveedor_fk (contratosConProveedor articulos proveedores contratos adjs ! i)
        = proveedor_fk (contratos ! i)"
    by (rule jc(2))
  show "(proveedor_obj (contratosConProveedor articulos proveedores contratos adjs ! i) = None)
         = (\<forall>s \<in> set proveedores. proveedor s \<noteq> proveedor_fk (contratos ! i))"
    by (rule jc(3))
  show "proveedor_obj (contratosConProveedor articulos proveedores contratos adjs ! i)
        = (case filter (\<lambda>s. proveedor s = proveedor_fk (contratos ! i)) proveedores of
             [] \<Rightarrow> None | ys \<Rightarrow> Some (last ys))"
    by (rule jc(6))
  show "adjudicados (contratosConProveedor articulos proveedores contratos adjs ! i)
        = filter (\<lambda>j. contrato_fk j = contrato (contratos ! i))
            (adjudicadosConArticulo articulos adjs)"
    by (rule jc(7))
  show "s \<in> set proveedores" "proveedor s = proveedor_fk (contratos ! i)"
    if "proveedor_obj (contratosConProveedor articulos proveedores contratos adjs ! i) = Some s"
    for s
    using jc(4) [OF that] by simp_all
  show "proveedor_obj (contratosConProveedor articulos proveedores contratos adjs ! i) = Some s"
    if "distinct (map proveedor proveedores)" "s \<in> set proveedores"
      "proveedor s = proveedor_fk (contratos ! i)"
    for s
    using that by (rule jc(5))
qed

text \<open>On the sample tables: the first award resolves its article, the second award and
  the second contract have dangling keys, and the first contract carries its supplier
  and the awards of contract C1.\<close>

theorem useData_joins_witness:
  "(0::nat) < length sampleAdjudicados \<and> 1 < length sampleContratos
   \<and> distinct (map codigo sampleArticulos) \<and> distinct (map proveedor sampleProveedores)
   \<and> sampleArticulo 101 ''Arroz'' \<in> set sampleArticulos
   \<and> articulo (adjudicadosConArticulo sampleArticulos sampleAdjudicados ! 0)
       = Some (sampleArticulo 101 ''Arroz'')
   \<and> articulo (adjudicadosConArticulo sampleArticulos sampleAdjudicados ! 1) = None
   \<and> proveedor_obj
       (contratosConProveedor sampleArticulos sampleProveedores sampleContratos
          sampleAdjudicados ! 0) = Some (sampleProveedor 1 ''P1'')
   \<and> proveedor_obj
       (contratosConProveedor sampleArticulos sampleProveedores sampleContratos
          sampleAdjudicados ! 1) = None
   \<and> proveedor_fk
       (contratosConProveedor sampleArticulos sampleProveedores sampleContratos
          sampleAdjudicados ! 1) = ''P9''
   \<and> adjudicados
       (contratosConProveedor sampleArticulos sampleProveedores sampleContratos
          sampleAdjudicados ! 0)
       = filter (\<lambda>j. contrato_fk j = ''C1'')
           (adjudicadosConArticulo sampleArticulos sampleAdjudicados)"
proof -
  note J = useData_joins [of sampleArticulos sampleAdjudicados sampleProveedores sampleContratos]
  have lenA: "length sampleAdjudicados = 3" and lenC: "length sampleContratos = 3"
    by (simp_all add: sampleAdjudicados_def sampleContratos_def)
  have fk0: "codigo_fk (sampleAdjudicados ! 0) = 101" and fk1: "codigo_fk (sampleAdjudicados ! 1) = 999"
    by (simp_all add: sampleAdjudicados_def sampleAdjudicado_def)
  have pk0: "proveedor_fk (sampleContratos ! 0) = ''P1''"
    and pk1: "proveedor_fk (sampleContratos ! 1) = ''P9''"
    and ck0: "contrato (sampleContratos ! 0) = ''C1''"
    by (simp_all add: sampleContratos_def sampleContrato_def)
  have dist: "distinct (map codigo sampleArticulos)" "distinct (map proveedor sampleProveedores)"
    by (simp_all add: sampleArticulos_def sampleProveedores_def sampleArticulo_def
          sampleProveedor_def)
  have mem: "sampleArticulo 101 ''Arroz'' \<in> set sampleArticulos"
    "codigo (sampleArticulo 101 ''Arroz'') = 101"
    "sampleProveedor 1 ''P1'' \<in> set sampleProveedores"
    "proveedor (sampleProveedor 1 ''P1'') = ''P1''"
    by (simp_all add: sampleArticulos_def sampleProveedores_def sampleArticulo_def
          sampleProveedor_def)
  have none: "\<forall>a\<in>set sampleArticulos. codigo a \<noteq> 999"
    "\<forall>s\<in>set sampleProveedores. proveedor s \<noteq> ''P9''"
    by (simp_all add: sampleArticulos_def sampleProveedores_def sampleArticulo_def
          sampleProveedor_def)
  from J have awards: "\<forall>i<length sampleAdjudicados.
      ((articulo (adjudicadosConArticulo sampleArticulos sampleAdjudicados ! i) = None)
         = (\<forall>a \<in> set sampleArticulos. codigo a \<noteq> codigo_fk (sampleAdjudicados ! i))) \<and>
      (distinct (map codigo sampleArticulos) \<longrightarrow>
         (\<forall>a \<in> set sampleArticulos. codigo a = codigo_fk (sampleAdjudicados ! i)
            \<longrightarrow> articulo (adjudicadosConArticulo sampleArticulos sampleAdjudicados ! i) = Some a))"
    by blast
  from J have contracts: "\<forall>i<length sampleContratos.
      proveedor_fk (contratosConProveedor sampleArticulos sampleProveedores sampleContratos
          sampleAdjudicados ! i) = proveedor_fk (sampleContratos ! i) \<and>
      ((proveedor_obj (contratosConProveedor sampleArticulos sampleProveedores sampleContratos
          sampleAdjudicados ! i) = None)
         = (\<forall>s \<in> set sampleProveedores. proveedor s \<noteq> proveedor_fk (sampleContratos ! i))) \<and>
      (distinct (map proveedor sampleProveedores) \<longrightarrow>
         (\<forall>s \<in> set sampleProveedores. proveedor s = proveedor_fk (sampleContratos ! i)
            \<longrightarrow> proveedor_obj (contratosConProveedor sampleArticulos sampleProveedores
                   sampleContratos sampleAdjudicados ! i) = Some s)) \<and>
      adjudicados (contratosConProveedor sampleArticulos sampleProveedores sampleContratos
          sampleAdjudicados ! i)
        = filter (\<lambda>j. contrato_fk j = contrato (sampleContratos ! i))
            (adjudicadosConArticulo sampleArticulos sampleAdjudicados)"
    by blast
  have a0: "articulo (adjudicadosConArticulo sampleArticulos sampleAdjudicados ! 0)
              = Some (sampleArticulo 101 ''Arroz'')"
    using awards[rule_format, of 0] lenA dist(1) mem(1,2) fk0 by simp
  have a1: "articulo (adjudicadosConArticulo sampleArticulos sampleAdjudicados ! 1) = None"
    using awards[rule_format, of 1] lenA none(1) fk1 by simp
  have c0: "proveedor_obj
       (contratosConProveedor sampleArticulos sampleProveedores sampleContratos
          sampleAdjudicados ! 0) = Some (sampleProveedor 1 ''P1'')"
    using contracts[rule_format, of 0] lenC dist(2) mem(3,4) pk0 by simp
  have c1: "proveedor_obj
       (contratosConProveedor sampleArticulos sampleProveedores sampleContratos
          sampleAdjudicados ! 1) = None"
    "proveedor_fk
       (contratosConProveedor sampleArticulos sampleProveedores sampleContratos
          sampleAdjudicados ! 1) = ''P9''"
    using contracts[rule_format, of 1] lenC none(2) pk1 by simp_all
  have adj: "adjudicados
          (contratosConProveedor sampleArticulos sampleProveedores sampleContratos
             sampleAdjudicados ! 0)
        = filter (\<lambda>j. contrato_fk j = ''C1'')
            (adjudicadosConArticulo sampleArticulos sampleAdjudicados)"
    using contracts[rule_format, of 0] lenC ck0 by simp
  from lenA lenC dist mem(1) a0 a1 c0 c1 adj show ?thesis by simp
qed

section \<open>Properties of the sortable table\<close>

subsection \<open>Lower case\<close>

lemma letters_lowerChar:
  assumes "(c, d) \<in> set (zip ''ABCDEFGHIJKLMNOPQRSTUVWXYZ'' ''abcdefghijklmnopqrstuvwxyz'')"
  shows "lowerChar c = d" and "lowerChar d = d"
proof -
  from assms have "(c, d) \<in> {(CHR ''A'', CHR ''a''), (CHR ''B'', CHR ''b''), (CHR ''C'', CHR ''c''),
      (CHR ''D'', CHR ''d''), (CHR ''E'', CHR ''e''), (CHR ''F'', CHR ''f''), (CHR ''G'', CHR ''g''),
      (CHR ''H'', CHR ''h''), (CHR ''I'', CHR ''i''), (CHR ''J'', CHR ''j''), (CHR ''K'', CHR ''k''),
      (CHR ''L'', CHR ''l''), (CHR ''M'', CHR ''m''), (CHR ''N'', CHR ''n''), (CHR ''O'', CHR ''o''),
      (CHR ''P'', CHR ''p''), (CHR ''Q'', CHR ''q''), (CHR ''R'', CHR ''r''), (CHR ''S'', CHR ''s''),
      (CHR ''T'', CHR ''t''), (CHR ''U'', CHR ''u''), (CHR ''V'', CHR ''v''), (CHR ''W'', CHR ''w''),
      (CHR ''X'', CHR ''x''), (CHR ''Y'', CHR ''y''), (CHR ''Z'', CHR ''z'')}"
    by simp
  then have "lowerChar c = d \<and> lowerChar d = d"
    by (elim insertE emptyE) (simp_all add: lowerChar_def)
  then show "lowerChar c = d" and "lowerChar d = d" by simp_all
qed

lemma sameLetter_lowerChar: "sameLetter c d \<Longrightarrow> lowerChar c = lowerChar d"
  unfolding sameLetter_def
  by (elim disjE) (simp_all add: letters_lowerChar)

lemma lowerChar_cases:
  "(c, lowerChar c) \<in> set (zip ''ABCDEFGHIJKLMNOPQRSTUVWXYZ'' ''abcdefghijklmnopqrstuvwxyz'')
   \<or> lowerChar c = c"
proof (cases "map_of (zip ''ABCDEFGHIJKLMNOPQRSTUVWXYZ'' ''abcdefghijklmnopqrstuvwxyz'') c")
  case None
  then show ?thesis by (simp only: lowerChar_def option.case simp_thms)
next
  case (Some l)
  then have "(c, l) \<in> set (zip ''ABCDEFGHIJKLMNOPQRSTUVWXYZ'' ''abcdefghijklmnopqrstuvwxyz'')"
    by (rule map_of_SomeD)
  moreover from Some have "lowerChar c = l"
    by (simp only: lowerChar_def option.case)
  ultimately show ?thesis by simp
qed

lemma letters_inj:
  assumes "(c, l) \<in> set (zip ''ABCDEFGHIJKLMNOPQRSTUVWXYZ'' ''abcdefghijklmnopqrstuvwxyz'')"
    and "(d, l) \<in> set (zip ''ABCDEFGHIJKLMNOPQRSTUVWXYZ'' ''abcdefghijklmnopqrstuvwxyz'')"
  shows "c = d"
proof -
  have "distinct (map snd (zip ''ABCDEFGHIJKLMNOPQRSTUVWXYZ'' ''abcdefghijklmnopqrstuvwxyz''))"
    by simp
  then have "inj_on snd (set (zip ''ABCDEFGHIJKLMNOPQRSTUVWXYZ'' ''abcdefghijklmnopqrstuvwxyz''))"
    by (simp only: distinct_map)
  from inj_onD [OF this _ assms] show ?thesis by simp
qed

lemma lowerChar_sameLetter:
  assumes "lowerChar c = lowerChar d"
  shows "sameLetter c d"
proof -
  consider
    (both) "(c, lowerChar c) \<in> set (zip ''ABCDEFGHIJKLMNOPQRSTUVWXYZ'' ''abcdefghijklmnopqrstuvwxyz'')"
      "(d, lowerChar d) \<in> set (zip ''ABCDEFGHIJKLMNOPQRSTUVWXYZ'' ''abcdefghijklmnopqrstuvwxyz'')"
    | (left) "(c, lowerChar c) \<in> set (zip ''ABCDEFGHIJKLMNOPQRSTUVWXYZ'' ''abcdefghijklmnopqrstuvwxyz'')"
      "lowerChar d = d"
    | (right) "lowerChar c = c"
      "(d, lowerChar d) \<in> set (zip ''ABCDEFGHIJKLMNOPQRSTUVWXYZ'' ''abcdefghijklmnopqrstuvwxyz'')"
    | (none) "lowerChar c = c" "lowerChar d = d"
    using lowerChar_cases [of c] lowerChar_cases [of d] by blast
  then show ?thesis
  proof cases
    case both
    from both(1) both(2) [folded assms] have "c = d" by (rule letters_inj)
    then show ?thesis by (simp add: sameLetter_def)
  next
    case left
    from left(1) have "(c, d) \<in> set (zip ''ABCDEFGHIJKLMNOPQRSTUVWXYZ'' ''abcdefghijklmnopqrstuvwxyz'')"
      by (simp only: assms left(2))
    then show ?thesis by (simp only: sameLetter_def simp_thms)
  next
    case right
    from right(2) have "(d, c) \<in> set (zip ''ABCDEFGHIJKLMNOPQRSTUVWXYZ'' ''abcdefghijklmnopqrstuvwxyz'')"
      by (simp only: assms [symmetric] right(1))
    then show ?thesis by (simp only: sameLetter_def simp_thms)
  next
    case none
    with assms have "c = d" by simp
    then show ?thesis by (simp add: sameLetter_def)
  qed
qed

lemma toLowerCase_eq_iff: "(toLowerCase x = toLowerCase y) = equalIgnoringCase x y"
proof
  assume "equalIgnoringCase x y"
  then show "toLowerCase x = toLowerCase y"
    unfolding equalIgnoringCase_def toLowerCase_def
    by (induction rule: list_all2_induct) (simp_all add: sameLetter_lowerChar)
next
  assume "toLowerCase x = toLowerCase y"
  then show "equalIgnoringCase x y"
    unfolding equalIgnoringCase_def toLowerCase_def
  proof (induction x arbitrary: y)
    case Nil
    then show ?case by simp
  next
    case (Cons c x)
    then obtain d y' where y: "y = d # y'" by (cases y) auto
    with Cons.prems have "lowerChar c = lowerChar d" "map lowerChar x = map lowerChar y'"
      by simp_all
    then show ?case
      using Cons.IH [of y'] by (simp add: y lowerChar_sameLetter)
  qed
qed

lemma toLowerCase_sample:
  "toLowerCase ''Arroz'' = ''arroz''" "toLowerCase ''BETA'' = ''beta''"
  "toLowerCase ''abc'' = ''abc''" "toLowerCase ''ABC'' = ''abc''"
  "toLowerCase ''Beta'' = ''beta''" "toLowerCase ''arroz'' = ''arroz''"
  by (simp_all add: toLowerCase_def lowerChar_def)

lemma sameLetter_sample:
  "equalIgnoringCase ''abc'' ''ABC''" "equalIgnoringCase ''Arroz'' ''ARROZ''"
  "equalIgnoringCase ''BETA'' ''beta''"
  by (simp_all add: equalIgnoringCase_def sameLetter_def)

subsection \<open>The comparison function\<close>

text \<open>
  Claim C4. The comparison function of the table, on the two values at the sort key:
  a first value that is \<open>null\<close> or \<open>undefined\<close> is ordered after the second whatever the
  direction (result 1), and a second value that is \<open>null\<close> or \<open>undefined\<close> is ordered
  after a first that is neither (result -1), so these values sort last in both
  directions. Two strings are compared without regard to the case of the letters A to
  Z: by their lower-cased forms, so that the result is 0 exactly for two strings that
  are the same up to case, and is the same for strings that are the same up to case
  ("abc" and "ABC" give 0, and "Beta" comes after "arroz", although B precedes a in
  the order of the characters). Two numbers are compared numerically. For strings and
  for numbers the result is negated for the descending direction; every other
  combination of types gives 0.
\<close>

theorem compareValues_policy:
  "((a = JNull \<or> a = JUndefined) \<longrightarrow> compareValues dir a b = 1) \<and>
   (a \<noteq> JNull \<and> a \<noteq> JUndefined \<and> (b = JNull \<or> b = JUndefined)
      \<longrightarrow> compareValues dir a b = - 1) \<and>
   compareValues Asc (JStr x) (JStr y)
     = (if toLowerCase x < toLowerCase y then - 1
        else if toLowerCase y < toLowerCase x then 1 else 0) \<and>
   compareValues Desc (JStr x) (JStr y) = - compareValues Asc (JStr x) (JStr y) \<and>
   ((compareValues dir (JStr x) (JStr y) = 0) \<longleftrightarrow> equalIgnoringCase x y) \<and>
   (equalIgnoringCase x x' \<and> equalIgnoringCase y y'
      \<longrightarrow> compareValues dir (JStr x) (JStr y) = compareValues dir (JStr x') (JStr y')) \<and>
   compareValues Asc (JStr ''abc'') (JStr ''ABC'') = 0 \<and>
   compareValues Asc (JStr ''Beta'') (JStr ''arroz'') = 1 \<and>
   compareValues Desc (JStr ''Beta'') (JStr ''arroz'') = - 1 \<and>
   compareValues Asc (JNum m) (JNum n) = (if m < n then - 1 else if n < m then 1 else 0) \<and>
   compareValues Desc (JNum m) (JNum n) = - compareValues Asc (JNum m) (JNum n) \<and>
   (a \<noteq> JNull \<and> a \<noteq> JUndefined \<and> b \<noteq> JNull \<and> b \<noteq> JUndefined
      \<and> \<not> ((\<exists>s. a = JStr s) \<and> (\<exists>t. b = JStr t))
      \<and> \<not> ((\<exists>i. a = JNum i) \<and> (\<exists>j. b = JNum j))
      \<longrightarrow> compareValues dir a b = 0)"
proof (intro conjI impI)
  show "compareValues dir a b = 1" if "a = JNull \<or> a = JUndefined"
    using that by (auto simp: compareValues_def)
  show "compareValues dir a b = - 1"
    if "a \<noteq> JNull \<and> a \<noteq> JUndefined \<and> (b = JNull \<or> b = JUndefined)"
    using that by (auto simp: compareValues_def)
  show "compareValues dir a b = 0"
    if "a \<noteq> JNull \<and> a \<noteq> JUndefined \<and> b \<noteq> JNull \<and> b \<noteq> JUndefined
      \<and> \<not> ((\<exists>s. a = JStr s) \<and> (\<exists>t. b = JStr t))
      \<and> \<not> ((\<exists>i. a = JNum i) \<and> (\<exists>j. b = JNum j))"
    using that by (cases a; cases b) (simp_all add: compareValues_def)
  have zero: "(compareValues dir (JStr u) (JStr v) = 0) = (toLowerCase u = toLowerCase v)"
    for u v
    by (cases dir) (auto simp: compareValues_def)
  show "(compareValues dir (JStr x) (JStr y) = 0) \<longleftrightarrow> equalIgnoringCase x y"
    by (simp only: zero toLowerCase_eq_iff)
  show "compareValues dir (JStr x) (JStr y) = compareValues dir (JStr x') (JStr y')"
    if "equalIgnoringCase x x' \<and> equalIgnoringCase y y'"
  proof -
    from that have "toLowerCase x = toLowerCase x'" "toLowerCase y = toLowerCase y'"
      by (simp_all only: toLowerCase_eq_iff)
    then show ?thesis by (simp add: compareValues_def)
  qed
  show "compareValues Asc (JStr ''abc'') (JStr ''ABC'') = 0"
    by (simp add: compareValues_def toLowerCase_sample)
  show "compareValues Asc (JStr ''Beta'') (JStr ''arroz'') = 1"
    by (simp add: compareValues_def toLowerCase_sample)
  show "compareValues Desc (JStr ''Beta'') (JStr ''arroz'') = - 1"
    by (simp add: compareValues_def toLowerCase_sample)
qed (simp_all add: compareValues_def)

theorem compareValues_policy_witness:
  "compareValues Asc JNull (JNum 3) = 1 \<and> compareValues Desc JUndefined (JNum 3) = 1
   \<and> compareValues Asc (JNum 3) JNull = - 1 \<and> compareValues Desc (JNum 3) JNull = - 1
   \<and> compareValues Asc (JStr ''Arroz'') (JStr ''BETA'') = - 1
   \<and> compareValues Desc (JStr ''Arroz'') (JStr ''BETA'') = 1
   \<and> compareValues Asc (JStr ''ARROZ'') (JStr ''beta'') = - 1
   \<and> compareValues Asc (JStr ''abc'') (JStr ''ABC'') = 0
   \<and> compareValues Desc (JStr ''ABC'') (JStr ''abc'') = 0
   \<and> (''Beta'' :: string) < ''arroz''
   \<and> compareValues Asc (JStr ''Beta'') (JStr ''arroz'') = 1
   \<and> compareValues Desc (JStr ''Beta'') (JStr ''arroz'') = - 1
   \<and> compareValues Asc (JNum 7) (JNum 2) = 1 \<and> compareValues Desc (JNum 7) (JNum 2) = - 1
   \<and> compareValues Asc (JStr ''7'') (JNum 2) = 0 \<and> compareValues Desc (JBool True) (JNum 2) = 0"
proof -
  have n1: "compareValues Asc JNull (JNum 3) = 1"
    using compareValues_policy [where a = JNull and dir = Asc and b = "JNum 3"] by simp
  have n2: "compareValues Desc JUndefined (JNum 3) = 1"
    using compareValues_policy [where a = JUndefined and dir = Desc and b = "JNum 3"] by simp
  have n3: "compareValues Asc (JNum 3) JNull = - 1"
    using compareValues_policy [where a = "JNum 3" and b = JNull and dir = Asc] by simp
  have n4: "compareValues Desc (JNum 3) JNull = - 1"
    using compareValues_policy [where a = "JNum 3" and b = JNull and dir = Desc] by simp
  have s: "compareValues Asc (JStr ''Arroz'') (JStr ''BETA'') = - 1
     \<and> compareValues Desc (JStr ''Arroz'') (JStr ''BETA'') = 1"
    using compareValues_policy [where x = "''Arroz''" and y = "''BETA''"]
    by (simp add: toLowerCase_sample)
  note iff = compareValues_policy [THEN conjunct2, THEN conjunct2, THEN conjunct2,
      THEN conjunct2, THEN conjunct1]
  note inv = compareValues_policy [THEN conjunct2, THEN conjunct2, THEN conjunct2,
      THEN conjunct2, THEN conjunct2, THEN conjunct1, THEN mp, OF conjI]
  have i: "compareValues Asc (JStr ''ARROZ'') (JStr ''beta'') = - 1"
    using inv [OF sameLetter_sample(2) sameLetter_sample(3), of Asc] s by simp
  have e1: "compareValues Asc (JStr ''abc'') (JStr ''ABC'') = 0"
    using iff [of Asc "''abc''" "''ABC''"] sameLetter_sample(1) by simp
  have e2: "compareValues Desc (JStr ''ABC'') (JStr ''abc'') = 0"
    using iff [of Desc "''ABC''" "''abc''"]
    by (simp add: equalIgnoringCase_def sameLetter_def)
  have raw: "(''Beta'' :: string) < ''arroz''"
    by simp
  have o: "compareValues Asc (JStr ''Beta'') (JStr ''arroz'') = 1
     \<and> compareValues Desc (JStr ''Beta'') (JStr ''arroz'') = - 1"
    using compareValues_policy [where x = "''Beta''" and y = "''arroz''"]
    by (simp add: toLowerCase_sample)
  have m: "compareValues Asc (JNum 7) (JNum 2) = 1 \<and> compareValues Desc (JNum 7) (JNum 2) = - 1"
    using compareValues_policy [where m = 7 and n = 2] by simp
  have z1: "compareValues Asc (JStr ''7'') (JNum 2) = 0"
    using compareValues_policy [where a = "JStr ''7''" and b = "JNum 2" and dir = Asc] by simp
  have z2: "compareValues Desc (JBool True) (JNum 2) = 0"
    using compareValues_policy [where a = "JBool True" and b = "JNum 2" and dir = Desc] by simp
  from n1 n2 n3 n4 s i e1 e2 raw o m z1 z2 show ?thesis by (simp only: simp_thms)
qed

subsection \<open>The insertion sort\<close>

lemma mset_insertSorted: "mset (insertSorted cmp x ys) = add_mset x (mset ys)"
  by (induction ys) simp_all

lemma set_insertSorted: "set (insertSorted cmp x ys) = insert x (set ys)"
  by (induction ys) auto

lemma insertionSort_Nil: "insertionSort cmp [] = []"
  by (simp add: insertionSort_def)

lemma insertionSort_snoc: "insertionSort cmp (xs @ [x]) = insertSorted cmp x (insertionSort cmp xs)"
  by (simp add: insertionSort_def)

lemma mset_insertionSort: "mset (insertionSort cmp xs) = mset xs"
  by (induction xs rule: rev_induct) (simp_all add: insertionSort_Nil insertionSort_snoc mset_insertSorted)

lemma set_insertionSort: "set (insertionSort cmp xs) = set xs"
  by (metis mset_insertionSort set_mset_mset)

lemma length_insertionSort: "length (insertionSort cmp xs) = length xs"
  by (metis mset_insertionSort size_mset)

lemma insertSorted_last:
  "\<forall>y \<in> set ys. \<not> cmp x y < 0 \<Longrightarrow> insertSorted cmp x ys = ys @ [x]"
  by (induction ys) simp_all

text \<open>No element of the result stands behind one that it precedes, provided that
  "precedes" (a negative comparison) is transitive and irreflexive on the elements.\<close>

lemma sorted_wrt_insertSorted:
  assumes trans: "\<And>a b c. a \<in> insert x (set ys) \<Longrightarrow> b \<in> insert x (set ys)
            \<Longrightarrow> c \<in> insert x (set ys) \<Longrightarrow> cmp a b < 0 \<Longrightarrow> cmp b c < 0 \<Longrightarrow> cmp a c < 0"
    and irrefl: "\<And>a. a \<in> insert x (set ys) \<Longrightarrow> \<not> cmp a a < 0"
    and sorted: "sorted_wrt (\<lambda>a b. \<not> cmp b a < 0) ys"
  shows "sorted_wrt (\<lambda>a b. \<not> cmp b a < 0) (insertSorted cmp x ys)"
  using assms
proof (induction ys)
  case Nil
  then show ?case by simp
next
  case (Cons y ys)
  show ?case
  proof (cases "cmp x y < 0")
    case True
    have "\<not> cmp b x < 0" if "b \<in> set (y # ys)" for b
    proof
      assume bx: "cmp b x < 0"
      have b_y: "cmp b y < 0"
        using Cons.prems(1) [of b x y] that bx True by simp
      show False
      proof (cases "b = y")
        case True
        with b_y Cons.prems(2) [of y] show False by simp
      next
        case False
        with that have "b \<in> set ys" by simp
        with Cons.prems(3) b_y show False by auto
      qed
    qed
    with True Cons.prems(3) show ?thesis by simp
  next
    case False
    have "sorted_wrt (\<lambda>a b. \<not> cmp b a < 0) (insertSorted cmp x ys)"
    proof (rule Cons.IH)
      show "sorted_wrt (\<lambda>a b. \<not> cmp b a < 0) ys"
        using Cons.prems(3) by simp
    next
      fix a b c
      assume "a \<in> insert x (set ys)" "b \<in> insert x (set ys)" "c \<in> insert x (set ys)"
        "cmp a b < 0" "cmp b c < 0"
      then show "cmp a c < 0"
        using Cons.prems(1) [of a b c] by auto
    next
      fix a assume "a \<in> insert x (set ys)"
      then show "\<not> cmp a a < 0"
        using Cons.prems(2) [of a] by auto
    qed
    moreover have "\<forall>b \<in> set (insertSorted cmp x ys). \<not> cmp b y < 0"
      using False Cons.prems(3) by (auto simp: set_insertSorted)
    ultimately show ?thesis
      using False by simp
  qed
qed

lemma sorted_wrt_insertionSort:
  assumes trans: "\<And>a b c. a \<in> set xs \<Longrightarrow> b \<in> set xs \<Longrightarrow> c \<in> set xs
            \<Longrightarrow> cmp a b < 0 \<Longrightarrow> cmp b c < 0 \<Longrightarrow> cmp a c < 0"
    and irrefl: "\<And>a. a \<in> set xs \<Longrightarrow> \<not> cmp a a < 0"
  shows "sorted_wrt (\<lambda>a b. \<not> cmp b a < 0) (insertionSort cmp xs)"
  using assms
proof (induction xs rule: rev_induct)
  case Nil
  then show ?case by (simp add: insertionSort_Nil)
next
  case (snoc x xs)
  have IH: "sorted_wrt (\<lambda>a b. \<not> cmp b a < 0) (insertionSort cmp xs)"
    by (rule snoc.IH) (use snoc.prems in auto)
  show ?case
    unfolding insertionSort_snoc
  proof (rule sorted_wrt_insertSorted [OF _ _ IH])
    fix a b c
    assume "a \<in> insert x (set (insertionSort cmp xs))" "b \<in> insert x (set (insertionSort cmp xs))"
      "c \<in> insert x (set (insertionSort cmp xs))" "cmp a b < 0" "cmp b c < 0"
    then show "cmp a c < 0"
      using snoc.prems(1) [of a b c] by (auto simp: set_insertionSort)
  next
    fix a assume "a \<in> insert x (set (insertionSort cmp xs))"
    then show "\<not> cmp a a < 0"
      using snoc.prems(2) [of a] by (auto simp: set_insertionSort)
  qed
qed

text \<open>A list in which no element stands behind one that it precedes is left as it is.\<close>

lemma insertionSort_fixpoint:
  "sorted_wrt (\<lambda>a b. \<not> cmp b a < 0) xs \<Longrightarrow> insertionSort cmp xs = xs"
proof (induction xs rule: rev_induct)
  case Nil
  then show ?case by (simp add: insertionSort_Nil)
next
  case (snoc x xs)
  from snoc.prems have s: "sorted_wrt (\<lambda>a b. \<not> cmp b a < 0) xs"
    and l: "\<forall>y \<in> set xs. \<not> cmp x y < 0"
    by (auto simp: sorted_wrt_append)
  show ?case
    using insertSorted_last [of xs cmp x] l by (simp add: insertionSort_snoc snoc.IH [OF s])
qed

lemma insertionSort_idem:
  assumes "\<And>a b c. a \<in> set xs \<Longrightarrow> b \<in> set xs \<Longrightarrow> c \<in> set xs
            \<Longrightarrow> cmp a b < 0 \<Longrightarrow> cmp b c < 0 \<Longrightarrow> cmp a c < 0"
    and "\<And>a. a \<in> set xs \<Longrightarrow> \<not> cmp a a < 0"
  shows "insertionSort cmp (insertionSort cmp xs) = insertionSort cmp xs"
  by (rule insertionSort_fixpoint) (rule sorted_wrt_insertionSort, fact+)


subsection \<open>Consistent comparison functions\<close>

lemma consistentOn_iff:
  "consistentOn compareFn xs =
     (\<forall>a\<in>set xs. \<forall>b\<in>set xs. \<forall>c\<in>set xs.
         compareFn a b \<noteq> None
         \<and> sortCompare compareFn a a = 0
         \<and> (sortCompare compareFn a b = 0 \<longrightarrow> sortCompare compareFn b a = 0)
         \<and> (sortCompare compareFn a b = 0 \<and> sortCompare compareFn b c = 0
              \<longrightarrow> sortCompare compareFn a c = 0)
         \<and> (sortCompare compareFn a b < 0 \<and> sortCompare compareFn b c < 0
              \<longrightarrow> sortCompare compareFn a c < 0)
         \<and> (sortCompare compareFn a b > 0 \<and> sortCompare compareFn b c > 0
              \<longrightarrow> sortCompare compareFn a c > 0))"
  by (simp only: consistentOn_def list_all_iff)


lemma consistentOn_trans:
  assumes "consistentOn compareFn xs" "a \<in> set xs" "b \<in> set xs" "c \<in> set xs"
    and "sortCompare compareFn a b < 0" "sortCompare compareFn b c < 0"
  shows "sortCompare compareFn a c < 0"
  using assms unfolding consistentOn_iff by blast

lemma consistentOn_irrefl:
  assumes "consistentOn compareFn xs" "a \<in> set xs"
  shows "\<not> sortCompare compareFn a a < 0"
proof -
  from assms have "sortCompare compareFn a a = 0"
    unfolding consistentOn_iff by blast
  then show ?thesis by simp
qed

text \<open>A comparison function that orders the elements by a key, upwards or downwards, is
  consistent.\<close>

lemma consistentOn_key:
  fixes f :: "'a \<Rightarrow> 'b::linorder"
  assumes "\<And>a b. a \<in> set xs \<Longrightarrow> b \<in> set xs
             \<Longrightarrow> \<exists>v. compareFn a b = Some v \<and> (v < 0) = (f a < f b) \<and> (v = 0) = (f a = f b)"
  shows "consistentOn compareFn xs"
  unfolding consistentOn_iff
proof (intro ballI)
  fix a b c assume abc: "a \<in> set xs" "b \<in> set xs" "c \<in> set xs"
  have k: "compareFn u v \<noteq> None \<and> (sortCompare compareFn u v < 0) = (f u < f v)
      \<and> (sortCompare compareFn u v = 0) = (f u = f v)
      \<and> (sortCompare compareFn u v > 0) = (f v < f u)"
    if "u \<in> set xs" "v \<in> set xs" for u v
  proof -
    from assms [OF that] obtain w where w: "compareFn u v = Some w"
      "(w < 0) = (f u < f v)" "(w = 0) = (f u = f v)" by blast
    then have "(0 < w) = (f v < f u)" by (metis not_less_iff_gr_or_eq)
    with w show ?thesis by (simp add: sortCompare_def)
  qed
  show "compareFn a b \<noteq> None
         \<and> sortCompare compareFn a a = 0
         \<and> (sortCompare compareFn a b = 0 \<longrightarrow> sortCompare compareFn b a = 0)
         \<and> (sortCompare compareFn a b = 0 \<and> sortCompare compareFn b c = 0
              \<longrightarrow> sortCompare compareFn a c = 0)
         \<and> (sortCompare compareFn a b < 0 \<and> sortCompare compareFn b c < 0
              \<longrightarrow> sortCompare compareFn a c < 0)
         \<and> (sortCompare compareFn a b > 0 \<and> sortCompare compareFn b c > 0
              \<longrightarrow> sortCompare compareFn a c > 0)"
    using k [of a a] k [of a b] k [of b a] k [of b c] k [of a c] abc
    by (auto intro: less_trans)
qed

lemma consistentOn_key_desc:
  fixes f :: "'a \<Rightarrow> 'b::linorder"
  assumes "\<And>a b. a \<in> set xs \<Longrightarrow> b \<in> set xs
             \<Longrightarrow> \<exists>v. compareFn a b = Some v \<and> (v < 0) = (f b < f a) \<and> (v = 0) = (f a = f b)"
  shows "consistentOn compareFn xs"
  unfolding consistentOn_iff
proof (intro ballI)
  fix a b c assume abc: "a \<in> set xs" "b \<in> set xs" "c \<in> set xs"
  have k: "compareFn u v \<noteq> None \<and> (sortCompare compareFn u v < 0) = (f v < f u)
      \<and> (sortCompare compareFn u v = 0) = (f u = f v)
      \<and> (sortCompare compareFn u v > 0) = (f u < f v)"
    if "u \<in> set xs" "v \<in> set xs" for u v
  proof -
    from assms [OF that] obtain w where w: "compareFn u v = Some w"
      "(w < 0) = (f v < f u)" "(w = 0) = (f u = f v)" by blast
    then have "(0 < w) = (f u < f v)" by (metis not_less_iff_gr_or_eq)
    with w show ?thesis by (simp add: sortCompare_def)
  qed
  show "compareFn a b \<noteq> None
         \<and> sortCompare compareFn a a = 0
         \<and> (sortCompare compareFn a b = 0 \<longrightarrow> sortCompare compareFn b a = 0)
         \<and> (sortCompare compareFn a b = 0 \<and> sortCompare compareFn b c = 0
              \<longrightarrow> sortCompare compareFn a c = 0)
         \<and> (sortCompare compareFn a b < 0 \<and> sortCompare compareFn b c < 0
              \<longrightarrow> sortCompare compareFn a c < 0)
         \<and> (sortCompare compareFn a b > 0 \<and> sortCompare compareFn b c > 0
              \<longrightarrow> sortCompare compareFn a c > 0)"
    using k [of a a] k [of a b] k [of b a] k [of b c] k [of a c] abc
    by (auto intro: less_trans)
qed

subsection \<open>The sort of the engine\<close>

lemma arraySort_consistent:
  "consistentOn compareFn xs
     \<Longrightarrow> arraySort engineSort compareFn xs = insertionSort (sortCompare compareFn) xs"
  by (simp add: arraySort_def)

lemma mset_arraySort: "mset (arraySort engineSort compareFn xs) = mset xs"
  by (simp add: arraySort_def mset_insertionSort)

lemma set_arraySort: "set (arraySort engineSort compareFn xs) = set xs"
  by (metis mset_arraySort set_mset_mset)

lemma length_arraySort: "length (arraySort engineSort compareFn xs) = length xs"
  by (metis mset_arraySort size_mset)

text \<open>An array of at most one element is left as it is, whatever the comparison
  function and the engine.\<close>

lemma arraySort_short:
  assumes "length xs \<le> 1"
  shows "arraySort engineSort compareFn xs = xs"
proof (cases xs)
  case Nil
  then show ?thesis
    using length_arraySort [of engineSort compareFn xs] by simp
next
  case (Cons x ys)
  with assms have xs: "xs = [x]" by simp
  have "mset (arraySort engineSort compareFn [x]) = {#x#}"
    by (simp only: mset_arraySort mset.simps)
  then have "arraySort engineSort compareFn [x] = [x]"
    by simp
  with xs show ?thesis by simp
qed

text \<open>With a consistent comparison function the result is in the order of the
  comparison, sorting twice is sorting once, and an array in the order of the
  comparison is left as it is.\<close>

lemma sorted_wrt_arraySort:
  assumes "consistentOn compareFn xs"
  shows "sorted_wrt (\<lambda>a b. \<not> sortCompare compareFn b a < 0) (arraySort engineSort compareFn xs)"
  unfolding arraySort_consistent [OF assms]
  by (rule sorted_wrt_insertionSort)
     (erule (4) consistentOn_trans [OF assms], erule consistentOn_irrefl [OF assms])



subsection \<open>Ascending against descending\<close>




subsection \<open>The comparison function of the table as a comparison function of the sort\<close>

lemma sortCompare_rows: "sortCompare (\<lambda>a b. Some (compareRows c a b)) = compareRows c"
  by (simp add: fun_eq_iff sortCompare_def)

lemma sortedItems_consistent:
  assumes "consistentOn (\<lambda>a b. Some (compareRows c a b)) items"
  shows "sortedItems engineSort items (Some c) = insertionSort (compareRows c) items"
  by (simp add: sortedItems_def arraySort_consistent [OF assms] sortCompare_rows)

lemma sign_cases:
  fixes x y :: "'b::linorder"
  shows "((if x < y then (- 1 :: int) else if y < x then 1 else 0) < 0) = (x < y)"
    and "((if x < y then (- 1 :: int) else if y < x then 1 else 0) = 0) = (x = y)"
    and "((if x < y then (1 :: int) else if y < x then - 1 else 0) < 0) = (y < x)"
    and "((if x < y then (1 :: int) else if y < x then - 1 else 0) = 0) = (x = y)"
  by (auto dest: less_asym)


lemma compareValues_numbers:
  "(compareValues Asc (JNum m) (JNum n) < 0) = (m < n)"
  "(compareValues Asc (JNum m) (JNum n) = 0) = (m = n)"
  "(compareValues Desc (JNum m) (JNum n) < 0) = (n < m)"
  "(compareValues Desc (JNum m) (JNum n) = 0) = (m = n)"
  by (simp_all only: compareValues_def jsval.distinct jsval.case prod.case simp_thms if_False
        SortDirection.distinct if_True sign_cases)

text \<open>On a column of numbers, and on a column of strings, the comparison function is
  consistent.\<close>

lemma compareRows_consistent_numbers:
  assumes num: "\<forall>r\<in>set items. \<exists>n. getProp r k = JNum n"
  shows "consistentOn (\<lambda>a b. Some (compareRows \<lparr>key = k, direction = dir\<rparr> a b)) items"
proof (cases dir)
  case Asc
  show ?thesis
  proof (rule consistentOn_key [where f = "\<lambda>r. case getProp r k of JNum n \<Rightarrow> n | _ \<Rightarrow> 0"])
    fix a b assume "a \<in> set items" "b \<in> set items"
    with num obtain m n where mn: "getProp a k = JNum m" "getProp b k = JNum n" by blast
    show "\<exists>v. Some (compareRows \<lparr>key = k, direction = dir\<rparr> a b) = Some v
            \<and> (v < 0) = ((case getProp a k of JNum n \<Rightarrow> n | _ \<Rightarrow> 0)
                          < (case getProp b k of JNum n \<Rightarrow> n | _ \<Rightarrow> 0))
            \<and> (v = 0) = ((case getProp a k of JNum n \<Rightarrow> n | _ \<Rightarrow> 0)
                          = (case getProp b k of JNum n \<Rightarrow> n | _ \<Rightarrow> 0))"
      by (simp add: compareRows_def mn Asc compareValues_numbers)
  qed
next
  case Desc
  show ?thesis
  proof (rule consistentOn_key_desc [where f = "\<lambda>r. case getProp r k of JNum n \<Rightarrow> n | _ \<Rightarrow> 0"])
    fix a b assume "a \<in> set items" "b \<in> set items"
    with num obtain m n where mn: "getProp a k = JNum m" "getProp b k = JNum n" by blast
    show "\<exists>v. Some (compareRows \<lparr>key = k, direction = dir\<rparr> a b) = Some v
            \<and> (v < 0) = ((case getProp b k of JNum n \<Rightarrow> n | _ \<Rightarrow> 0)
                          < (case getProp a k of JNum n \<Rightarrow> n | _ \<Rightarrow> 0))
            \<and> (v = 0) = ((case getProp a k of JNum n \<Rightarrow> n | _ \<Rightarrow> 0)
                          = (case getProp b k of JNum n \<Rightarrow> n | _ \<Rightarrow> 0))"
      by (simp add: compareRows_def mn Desc compareValues_numbers)
  qed
qed



subsection \<open>Sorting twice, and ascending against descending\<close>








lemma sampleRows_consistent:
  "consistentOn (\<lambda>a b. Some (compareRows \<lparr>key = ''monto_maximo'', direction = dir\<rparr> a b))
     sampleRows"
  "consistentOn (\<lambda>a b. Some (compareRows \<lparr>key = ''monto_maximo'', direction = dir\<rparr> a b))
     tiedRows"
  "consistentOn (\<lambda>a b. Some (compareRows \<lparr>key = ''monto_maximo'', direction = dir\<rparr> a b))
     orderedRows"
  by (rule compareRows_consistent_numbers,
      simp add: sampleRows_def tiedRows_def orderedRows_def sampleRow_def getProp_def)+

lemma sampleRows_eval:
  "sortedItems engineSort sampleRows (byMonto Asc)
     = [sampleRow ''C2'' 100, sampleRow ''C1'' 200, sampleRow ''C3'' 300]"
  "sortedItems engineSort sampleRows (byMonto Desc)
     = [sampleRow ''C3'' 300, sampleRow ''C1'' 200, sampleRow ''C2'' 100]"
  "sortedItems engineSort tiedRows (byMonto Asc) = tiedRows"
  "sortedItems engineSort tiedRows (byMonto Desc) = tiedRows"
  "sortedItems engineSort orderedRows (byMonto Asc) = orderedRows"
  unfolding byMonto_def
  by (simp_all only: sortedItems_consistent [OF sampleRows_consistent(1)]
        sortedItems_consistent [OF sampleRows_consistent(2)]
        sortedItems_consistent [OF sampleRows_consistent(3)])
     (simp_all add: insertionSort_def compareRows_def compareValues_def
        getProp_def sampleRows_def tiedRows_def orderedRows_def sampleRow_def)



subsection \<open>Search\<close>

lemma includes_str_iff: "includes_str hay needle = sublist needle hay"
  by (induction hay) (simp_all add: sublist_Cons_right)

lemma matchesTerm_iff:
  "matchesTerm t searchKeys item =
     (\<exists>k\<in>set searchKeys. getProp item k \<noteq> JNull \<and> getProp item k \<noteq> JUndefined
        \<and> sublist t (toLowerCase (stringOf (getProp item k))))"
  by (simp add: matchesTerm_def list_ex_iff Let_def includes_str_iff)

text \<open>
  Claim C7. For every sorted row list, search term and list of search keys: the empty
  term returns all rows, in the order given; a non-empty term returns exactly the rows
  for which some search key has a value that is neither \<open>null\<close> nor \<open>undefined\<close> and
  whose \<open>String\<close> form, lower-cased, contains the lower-cased term as a substring, so a
  term that no row contains returns the empty list; and the result is a subsequence of
  the sorted list, in particular of the list that \<open>sortedItems\<close> gives the table.
\<close>

theorem filteredData_search:
  "filteredData sortedData [] searchKeys = sortedData \<and>
   (searchTerm \<noteq> [] \<longrightarrow>
      filteredData sortedData searchTerm searchKeys
        = filter (\<lambda>item. \<exists>k\<in>set searchKeys.
                    getProp item k \<noteq> JNull \<and> getProp item k \<noteq> JUndefined
                    \<and> sublist (toLowerCase searchTerm)
                         (toLowerCase (stringOf (getProp item k)))) sortedData) \<and>
   (searchTerm \<noteq> [] \<and>
      (\<forall>item\<in>set sortedData. \<forall>k\<in>set searchKeys.
          getProp item k \<noteq> JNull \<and> getProp item k \<noteq> JUndefined
          \<longrightarrow> \<not> sublist (toLowerCase searchTerm) (toLowerCase (stringOf (getProp item k))))
      \<longrightarrow> filteredData sortedData searchTerm searchKeys = []) \<and>
   subseq (filteredData sortedData searchTerm searchKeys) sortedData \<and>
   subseq (filteredData (sortedItems engineSort items cfg) searchTerm searchKeys)
     (sortedItems engineSort items cfg)"
proof (intro conjI impI)
  show "filteredData sortedData [] searchKeys = sortedData"
    by (simp add: filteredData_def)
  show "filteredData sortedData searchTerm searchKeys
        = filter (\<lambda>item. \<exists>k\<in>set searchKeys.
                    getProp item k \<noteq> JNull \<and> getProp item k \<noteq> JUndefined
                    \<and> sublist (toLowerCase searchTerm)
                         (toLowerCase (stringOf (getProp item k)))) sortedData"
    if "searchTerm \<noteq> []"
    using that by (simp add: filteredData_def matchesTerm_iff [abs_def])
  show "filteredData sortedData searchTerm searchKeys = []"
    if "searchTerm \<noteq> [] \<and>
      (\<forall>item\<in>set sortedData. \<forall>k\<in>set searchKeys.
          getProp item k \<noteq> JNull \<and> getProp item k \<noteq> JUndefined
          \<longrightarrow> \<not> sublist (toLowerCase searchTerm) (toLowerCase (stringOf (getProp item k))))"
    using that by (auto simp: filteredData_def matchesTerm_iff [abs_def] filter_empty_conv)
  show "subseq (filteredData sortedData searchTerm searchKeys) sortedData"
    by (simp add: filteredData_def)
  show "subseq (filteredData (sortedItems engineSort items cfg) searchTerm searchKeys)
          (sortedItems engineSort items cfg)"
    by (simp add: filteredData_def)
qed

theorem filteredData_search_witness:
  "filteredData (sortedItems insertionEngine sampleRows (byMonto Asc)) ''c2'' [''contrato'']
     = [sampleRow ''C2'' 100]
   \<and> filteredData (sortedItems insertionEngine sampleRows (byMonto Asc)) ''00''
       [''contrato'', ''monto_maximo'']
     = [sampleRow ''C2'' 100, sampleRow ''C1'' 200, sampleRow ''C3'' 300]
   \<and> filteredData (sortedItems insertionEngine sampleRows (byMonto Asc)) ''zz''
       [''contrato'', ''proveedor_fk''] = []"
proof -
  note T = filteredData_search
             [where sortedData = "sortedItems insertionEngine sampleRows (byMonto Asc)"]
  have low: "toLowerCase ''c2'' = ''c2''" "toLowerCase ''C1'' = ''c1''" "toLowerCase ''C2'' = ''c2''"
    "toLowerCase ''C3'' = ''c3''" "toLowerCase ''00'' = ''00''" "toLowerCase ''zz'' = ''zz''"
    "toLowerCase ''100'' = ''100''" "toLowerCase ''200'' = ''200''" "toLowerCase ''300'' = ''300''"
    by (simp_all add: toLowerCase_def lowerChar_def)
  have num: "numberToString 100 = ''100''" "numberToString 200 = ''200''"
    "numberToString 300 = ''300''"
    by (simp_all add: numberToString_def)
  have a: "filteredData (sortedItems insertionEngine sampleRows (byMonto Asc)) ''c2'' [''contrato'']
     = [sampleRow ''C2'' 100]"
    using T [where searchTerm = "''c2''" and searchKeys = "[''contrato'']"]
    by (simp add: sampleRows_eval sampleRow_def getProp_def low includes_str_iff [symmetric])
  have b: "filteredData (sortedItems insertionEngine sampleRows (byMonto Asc)) ''00''
       [''contrato'', ''monto_maximo'']
     = [sampleRow ''C2'' 100, sampleRow ''C1'' 200, sampleRow ''C3'' 300]"
    using T [where searchTerm = "''00''" and searchKeys = "[''contrato'', ''monto_maximo'']"]
    by (simp add: sampleRows_eval sampleRow_def getProp_def low num includes_str_iff [symmetric])
  have c: "filteredData (sortedItems insertionEngine sampleRows (byMonto Asc)) ''zz''
       [''contrato'', ''proveedor_fk''] = []"
    using T [where searchTerm = "''zz''" and searchKeys = "[''contrato'', ''proveedor_fk'']"]
    by (simp add: sampleRows_eval sampleRow_def getProp_def low includes_str_iff [symmetric])
  from a b c show ?thesis by simp
qed

subsection \<open>The sort state\<close>

lemma requestSort_eq:
  "requestSort sortConfig k
     = Some \<lparr>key = k,
             direction = (if sortConfig = Some \<lparr>key = k, direction = Asc\<rparr> then Desc else Asc)\<rparr>"
proof (cases sortConfig)
  case None
  then show ?thesis by (simp add: requestSort_def)
next
  case (Some c)
  then show ?thesis by (cases c) (auto simp: requestSort_def)
qed

lemma afterClicks_snoc: "afterClicks (ks @ [k]) = requestSort (afterClicks ks) k"
  by (simp add: afterClicks_def)

lemma afterClicks_last:
  "ks \<noteq> [] \<Longrightarrow> \<exists>dir. afterClicks ks = Some \<lparr>key = last ks, direction = dir\<rparr>"
  by (cases ks rule: rev_cases) (simp_all add: afterClicks_snoc requestSort_eq)


text \<open>
  Claim C10, as amended. The sort configuration is \<open>null\<close> only in the initial state:
  every \<open>requestSort\<close> sets a configuration with the clicked key, descending exactly when
  that key was already active and ascending, and ascending otherwise, and no transition
  restores \<open>null\<close>. So once a header has been clicked the configuration is that of the
  last clicked key, ascending or descending, and the unsorted configuration cannot be
  re-obtained through header clicks. The original input order can be shown again all
  the same: the sorted list is the input whenever the comparison function is consistent
  on the rows and the input is already in the order of the sort (no row stands behind
  a row that it precedes under the comparison).
\<close>

theorem requestSort_never_null:
  "requestSort sortConfig k
     = Some \<lparr>key = k,
             direction = (if sortConfig = Some \<lparr>key = k, direction = Asc\<rparr> then Desc else Asc)\<rparr>
   \<and> requestSort sortConfig k \<noteq> None
   \<and> afterClicks [] = None
   \<and> (ks \<noteq> [] \<longrightarrow>
        (\<exists>dir. afterClicks ks = Some \<lparr>key = last ks, direction = dir\<rparr>
           \<and> sortedItems engineSort items (afterClicks ks)
               = arraySort engineSort
                   (\<lambda>a b. Some (compareRows \<lparr>key = last ks, direction = dir\<rparr> a b)) items))
   \<and> (consistentOn (\<lambda>a b. Some (compareRows c a b)) items
        \<and> sorted_wrt (\<lambda>a b. \<not> compareRows c b a < 0) items
      \<longrightarrow> sortedItems engineSort items (Some c) = items)"
proof (intro conjI impI)
  show "requestSort sortConfig k
     = Some \<lparr>key = k,
             direction = (if sortConfig = Some \<lparr>key = k, direction = Asc\<rparr> then Desc else Asc)\<rparr>"
    by (rule requestSort_eq)
  then show "requestSort sortConfig k \<noteq> None"
    by simp
  show "afterClicks [] = None"
    by (simp add: afterClicks_def)
next
  assume "ks \<noteq> []"
  then obtain dir where d: "afterClicks ks = Some \<lparr>key = last ks, direction = dir\<rparr>"
    using afterClicks_last by blast
  show "\<exists>dir. afterClicks ks = Some \<lparr>key = last ks, direction = dir\<rparr>
           \<and> sortedItems engineSort items (afterClicks ks)
               = arraySort engineSort
                   (\<lambda>a b. Some (compareRows \<lparr>key = last ks, direction = dir\<rparr> a b)) items"
    by (rule exI [of _ dir]) (simp add: d sortedItems_def)
next
  assume H: "consistentOn (\<lambda>a b. Some (compareRows c a b)) items
        \<and> sorted_wrt (\<lambda>a b. \<not> compareRows c b a < 0) items"
  then have "insertionSort (compareRows c) items = items"
    by (intro insertionSort_fixpoint) simp
  with H show "sortedItems engineSort items (Some c) = items"
    by (simp add: sortedItems_consistent)
qed

lemma afterClicks_sample:
  "afterClicks [''monto_maximo''] = byMonto Asc"
  "afterClicks [''contrato'', ''monto_maximo'', ''monto_maximo''] = byMonto Desc"
  by (simp_all add: afterClicks_def requestSort_def byMonto_def)

text \<open>A table whose rows come in ascending order of the amount: one click on that
  header, and the rows are shown in the original input order.\<close>

theorem requestSort_input_order_counterexample:
  "afterClicks [''monto_maximo''] \<noteq> None
   \<and> sortedItems insertionEngine orderedRows (afterClicks [''monto_maximo'']) = orderedRows
   \<and> sortedItems insertionEngine orderedRows None = orderedRows"
  by (simp add: afterClicks_sample sampleRows_eval) (simp add: byMonto_def sortedItems_def)

theorem requestSort_never_null_witness:
  "[''contrato'', ''monto_maximo'', ''monto_maximo''] \<noteq> []
   \<and> afterClicks [''contrato'', ''monto_maximo'', ''monto_maximo'']
       = Some \<lparr>key = ''monto_maximo'', direction = Desc\<rparr>
   \<and> sortedItems insertionEngine sampleRows
         (afterClicks [''contrato'', ''monto_maximo'', ''monto_maximo''])
       = [sampleRow ''C3'' 300, sampleRow ''C1'' 200, sampleRow ''C2'' 100]
   \<and> consistentOn (\<lambda>a b. Some (compareRows \<lparr>key = ''monto_maximo'', direction = Asc\<rparr> a b))
       orderedRows
   \<and> sorted_wrt (\<lambda>a b. \<not> compareRows \<lparr>key = ''monto_maximo'', direction = Asc\<rparr> b a < 0)
       orderedRows
   \<and> sortedItems insertionEngine orderedRows
         (Some \<lparr>key = ''monto_maximo'', direction = Asc\<rparr>) = orderedRows"
proof -
  have ne: "[''contrato'', ''monto_maximo'', ''monto_maximo''] \<noteq> []" by simp
  have s: "sorted_wrt
      (\<lambda>a b. \<not> compareRows \<lparr>key = ''monto_maximo'', direction = Asc\<rparr> b a < 0) orderedRows"
    by (simp add: orderedRows_def sampleRow_def compareRows_def compareValues_def getProp_def)
  note c = sampleRows_consistent(3) [of Asc]
  note T = requestSort_never_null
         [where ks = "[''contrato'', ''monto_maximo'', ''monto_maximo'']" and items = orderedRows
            and c = "\<lparr>key = ''monto_maximo'', direction = Asc\<rparr>" and engineSort = insertionEngine]
  from T c s have f: "sortedItems insertionEngine orderedRows
         (Some \<lparr>key = ''monto_maximo'', direction = Asc\<rparr>) = orderedRows"
    by blast
  from T ne have "\<exists>dir. afterClicks [''contrato'', ''monto_maximo'', ''monto_maximo'']
      = Some \<lparr>key = last [''contrato'', ''monto_maximo'', ''monto_maximo''], direction = dir\<rparr>"
    by blast
  then have a: "afterClicks [''contrato'', ''monto_maximo'', ''monto_maximo'']
       = Some \<lparr>key = ''monto_maximo'', direction = Desc\<rparr>"
    by (simp add: afterClicks_sample byMonto_def)
  have e: "sortedItems insertionEngine sampleRows
         (afterClicks [''contrato'', ''monto_maximo'', ''monto_maximo''])
       = [sampleRow ''C3'' 300, sampleRow ''C1'' 200, sampleRow ''C2'' 100]"
    by (simp only: afterClicks_sample sampleRows_eval)
  from ne a e c s f show ?thesis
    by (simp only: simp_thms)
qed

section \<open>Properties of the dashboard aggregates\<close>

subsection \<open>Contract status\<close>

lemma foldl_countStatus:
  "foldl (countStatus utc dateParse now) acc cs =
     \<lparr>vigente = vigente acc
         + length (filter (\<lambda>c. \<exists>t. parseDate utc dateParse (fin_vigencia c) = TimeValue t \<and> now < t) cs),
      expirado = expirado acc
         + length (filter (\<lambda>c. \<exists>t. parseDate utc dateParse (fin_vigencia c) = TimeValue t \<and> \<not> now < t) cs)\<rparr>"
proof (induction cs arbitrary: acc)
  case Nil
  then show ?case by simp
next
  case (Cons c cs)
  show ?case
    unfolding foldl_Cons Cons.IH
    by (cases "parseDate utc dateParse (fin_vigencia c)") (simp_all add: countStatus_def)
qed

lemma sample_dates:
  "parseDate utcZone rejectAll ''01/01/2020'' = TimeValue 1577836800000"
  "parseDate utcZone rejectAll ''sin fecha'' = InvalidDate"
  "parseDate utcZone rejectAll ''15 de enero de 2024'' = TimeValue 1705276800000"
  by code_simp+

lemma contratosConProveedor_base:
  "map fin_vigencia (contratosConProveedor articulos proveedores contratos adjs)
     = map fin_vigencia contratos"
  "map monto_maximo (contratosConProveedor articulos proveedores contratos adjs)
     = map monto_maximo contratos"
  "map proveedor_fk (contratosConProveedor articulos proveedores contratos adjs)
     = map proveedor_fk contratos"
  by (simp_all add: contratosConProveedor_def extend_contract comp_def Let_def)

lemma status_partition:
  "length (filter (\<lambda>c. \<exists>t. f c = TimeValue t \<and> now < t) cs)
   + length (filter (\<lambda>c. \<exists>t. f c = TimeValue t \<and> \<not> now < t) cs)
   + length (filter (\<lambda>c. f c = InvalidDate) cs) = length cs"
proof (induction cs)
  case Nil
  then show ?case by simp
next
  case (Cons c cs)
  then show ?case by (cases "f c") auto
qed

text \<open>
  Claim C5. For every contract list and every time value of "now", the contract-status
  aggregate counts as "Vigente" exactly the contracts whose \<open>fin_vigencia\<close> is parsed by
  \<open>parseDate\<close> to a valid date with a time value strictly after now, and as "Expirado"
  exactly those parsed to a valid date not strictly after now; the contracts whose
  \<open>fin_vigencia\<close> parses to the invalid date are in neither count, and the three groups
  make up the list. The aggregate is a total function: it returns for every input.
\<close>

theorem contractStatusData_counts:
  "contractStatusData utc dateParse now contratos =
     [(''Vigente'',
       length (filter (\<lambda>c. \<exists>t. parseDate utc dateParse (fin_vigencia c) = TimeValue t
                              \<and> now < t) contratos)),
      (''Expirado'',
       length (filter (\<lambda>c. \<exists>t. parseDate utc dateParse (fin_vigencia c) = TimeValue t
                              \<and> \<not> now < t) contratos))]
   \<and> length (filter (\<lambda>c. \<exists>t. parseDate utc dateParse (fin_vigencia c) = TimeValue t
                            \<and> now < t) contratos)
     + length (filter (\<lambda>c. \<exists>t. parseDate utc dateParse (fin_vigencia c) = TimeValue t
                            \<and> \<not> now < t) contratos)
     + length (filter (\<lambda>c. \<not> isValidDate (parseDate utc dateParse (fin_vigencia c))) contratos)
     = length contratos"
proof
  show "contractStatusData utc dateParse now contratos =
     [(''Vigente'',
       length (filter (\<lambda>c. \<exists>t. parseDate utc dateParse (fin_vigencia c) = TimeValue t
                              \<and> now < t) contratos)),
      (''Expirado'',
       length (filter (\<lambda>c. \<exists>t. parseDate utc dateParse (fin_vigencia c) = TimeValue t
                              \<and> \<not> now < t) contratos))]"
    by (simp add: contractStatusData_def foldl_countStatus)
  show "length (filter (\<lambda>c. \<exists>t. parseDate utc dateParse (fin_vigencia c) = TimeValue t
                            \<and> now < t) contratos)
     + length (filter (\<lambda>c. \<exists>t. parseDate utc dateParse (fin_vigencia c) = TimeValue t
                            \<and> \<not> now < t) contratos)
     + length (filter (\<lambda>c. \<not> isValidDate (parseDate utc dateParse (fin_vigencia c))) contratos)
     = length contratos"
    using status_partition [of "\<lambda>c. parseDate utc dateParse (fin_vigencia c)" now contratos]
    by (simp add: isValidDate_def)
qed

text \<open>The sample contracts, seen on 13 September 2020 (time value 1600000000000): the
  contract ending on 01/01/2020 is expired, the one ending on 15 de enero de 2024 is
  current, and the one whose end date is the text "sin fecha" is in neither count.\<close>

theorem contractStatusData_counts_witness:
  "contractStatusData utcZone rejectAll 1600000000000
     (contratosConProveedor sampleArticulos sampleProveedores sampleContratos sampleAdjudicados)
   = [(''Vigente'', 1), (''Expirado'', 1)]
   \<and> length (contratosConProveedor sampleArticulos sampleProveedores sampleContratos
       sampleAdjudicados) = 3"
proof -
  define cs where
    "cs = contratosConProveedor sampleArticulos sampleProveedores sampleContratos sampleAdjudicados"
  have fin: "map fin_vigencia cs = [''01/01/2020'', ''sin fecha'', ''15 de enero de 2024'']"
    by (simp add: cs_def contratosConProveedor_base sampleContratos_def sampleContrato_def)
  have v: "length (filter (\<lambda>c. \<exists>t. parseDate utcZone rejectAll (fin_vigencia c) = TimeValue t
                              \<and> 1600000000000 < t) cs)
         = length (filter (\<lambda>s. \<exists>t. parseDate utcZone rejectAll s = TimeValue t
                              \<and> 1600000000000 < t) (map fin_vigencia cs))"
    by (simp add: filter_map comp_def)
  have e: "length (filter (\<lambda>c. \<exists>t. parseDate utcZone rejectAll (fin_vigencia c) = TimeValue t
                              \<and> \<not> 1600000000000 < t) cs)
         = length (filter (\<lambda>s. \<exists>t. parseDate utcZone rejectAll s = TimeValue t
                              \<and> \<not> 1600000000000 < t) (map fin_vigencia cs))"
    by (simp add: filter_map comp_def)
  have len: "length cs = 3"
    using arg_cong [OF fin, of length] by simp
  from contractStatusData_counts [of utcZone rejectAll 1600000000000 cs]
  have "contractStatusData utcZone rejectAll 1600000000000 cs = [(''Vigente'', 1), (''Expirado'', 1)]"
    unfolding v e fin by (simp add: sample_dates)
  with len show ?thesis by (simp add: cs_def)
qed

section \<open>Properties of the query bridge\<close>

lemma whiteSpace_not_word: "isWhiteSpace c \<Longrightarrow> \<not> isWordChar c"
  by (auto simp: isWhiteSpace_def isWordChar_def)

lemma length_fence: "length fence = 3"
  by (simp add: fence_def)

lemma trim_id:
  assumes "s \<noteq> []" "\<not> isWhiteSpace (hd s)" "\<not> isWhiteSpace (last s)"
  shows "trim s = s"
proof -
  from assms(1,2) have a: "dropWhile isWhiteSpace s = s"
    by (cases s) simp_all
  from assms(1,3) have b: "dropWhile isWhiteSpace (rev s) = rev s"
    by (cases s rule: rev_cases) simp_all
  show ?thesis by (simp add: trim_def a b)
qed

lemma fenceMatch_None:
  "\<not> (prefix fence s \<and> suffix fence s \<and> 6 \<le> length s) \<Longrightarrow> fenceMatch s = None"
  by (simp add: fenceMatch_def)

lemma stripFence_plain:
  "\<not> (prefix fence s \<and> suffix fence s \<and> 6 \<le> length s) \<Longrightarrow> stripFence s = s"
  by (simp add: stripFence_def fenceMatch_None)

lemma fenceMatch_fenced:
  assumes tag: "\<forall>c\<in>set tag. isWordChar c"
    and ws: "\<forall>c\<in>set ws. isWhiteSpace c" "\<forall>c\<in>set ws'. isWhiteSpace c"
    and body: "body \<noteq> []" "\<not> isWhiteSpace (hd body)" "\<not> isWhiteSpace (last body)"
    and sep: "ws \<noteq> [] \<or> \<not> isWordChar (hd body)"
  shows "fenceMatch (fence @ tag @ ws @ body @ ws' @ fence) = Some body"
proof -
  let ?s = "fence @ tag @ ws @ body @ ws' @ fence"
  have inner: "take (length ?s - 6) (drop 3 ?s) = tag @ ws @ body @ ws'"
    by (simp add: length_fence)
  have stop: "dropWhile isWordChar (ws @ body @ ws') = ws @ body @ ws'"
  proof (cases ws)
    case Nil
    with sep body(1) show ?thesis by (cases body) simp_all
  next
    case (Cons w ws2)
    with ws(1) have "\<not> isWordChar w" by (simp add: whiteSpace_not_word)
    with Cons show ?thesis by simp
  qed
  have d1: "dropWhile isWordChar (tag @ ws @ body @ ws') = ws @ body @ ws'"
    using tag stop by simp
  have d2: "dropWhile isWhiteSpace (ws @ body @ ws') = body @ ws'"
    using ws(1) body(1,2) by (cases body) simp_all
  have "dropWhile isWhiteSpace (rev ws' @ rev body) = dropWhile isWhiteSpace (rev body)"
    by (rule dropWhile_append2) (use ws(2) in auto)
  moreover have "dropWhile isWhiteSpace (rev body) = rev body"
    using body(1,3) by (cases body rule: rev_cases) simp_all
  ultimately have d3: "dropWhile isWhiteSpace (rev ws' @ rev body) = rev body"
    by simp
  have "prefix fence ?s" by simp
  moreover have "suffix fence ?s"
    by (simp add: suffix_def)
  moreover have "6 \<le> length ?s" by (simp add: length_fence)
  ultimately show ?thesis
    unfolding fenceMatch_def inner by (simp add: d1 d2 d3 Let_def)
qed

lemma stripFence_fenced:
  assumes "\<forall>c\<in>set tag. isWordChar c"
    and "\<forall>c\<in>set ws. isWhiteSpace c" "\<forall>c\<in>set ws'. isWhiteSpace c"
    and "body \<noteq> []" "\<not> isWhiteSpace (hd body)" "\<not> isWhiteSpace (last body)"
    and "ws \<noteq> [] \<or> \<not> isWordChar (hd body)"
  shows "stripFence (fence @ tag @ ws @ body @ ws' @ fence) = body"
  using assms by (simp add: stripFence_def fenceMatch_fenced trim_id)

lemma handleQuery_blank:
  "trim (query st) = [] \<Longrightarrow> handleQuery jsonParse service (st, calls) = (st, calls)"
  by (simp add: handleQuery_def)

lemma handleQuery_calls:
  "trim (query st) \<noteq> [] \<Longrightarrow> snd (handleQuery jsonParse service (st, calls)) = calls + 1"
  by (simp add: handleQuery_def queryDataWithGemini_def Let_def)

lemma failureMessage_nonempty: "failureMessage \<noteq> []"
  by (simp add: failureMessage_def)

lemma handleQuery_failure:
  assumes "trim (query st) \<noteq> []"
    and "fst (queryDataWithGemini jsonParse service calls) = Inl m"
  shows "m = failureMessage"
    and "error (fst (handleQuery jsonParse service (st, calls))) = Some failureMessage"
    and "result (fst (handleQuery jsonParse service (st, calls))) = None"
    and "isLoading (fst (handleQuery jsonParse service (st, calls))) = False"
proof -
  show m: "m = failureMessage"
    using assms(2)
    by (auto simp: queryDataWithGemini_def split: outcome.splits option.splits sum.splits)
  show "error (fst (handleQuery jsonParse service (st, calls))) = Some failureMessage"
    "result (fst (handleQuery jsonParse service (st, calls))) = None"
    "isLoading (fst (handleQuery jsonParse service (st, calls))) = False"
    using assms m by (simp_all add: handleQuery_def Let_def failureMessage_nonempty)
qed

lemma handleQuery_success:
  assumes "trim (query st) \<noteq> []"
    and "fst (queryDataWithGemini jsonParse service calls) = Inr v"
  shows "error (fst (handleQuery jsonParse service (st, calls))) = None"
    and "result (fst (handleQuery jsonParse service (st, calls))) = Some v"
    and "isLoading (fst (handleQuery jsonParse service (st, calls))) = False"
  using assms by (simp_all add: handleQuery_def Let_def)

lemma queryDataWithGemini_cases:
  "service calls = Rejected e \<Longrightarrow>
     fst (queryDataWithGemini jsonParse service calls) = Inl failureMessage"
  "service calls = Resolved None \<Longrightarrow>
     fst (queryDataWithGemini jsonParse service calls) = Inl failureMessage"
  "service calls = Resolved (Some text) \<Longrightarrow> jsonParse (stripFence (trim text)) = Inl e \<Longrightarrow>
     fst (queryDataWithGemini jsonParse service calls) = Inl failureMessage"
  "service calls = Resolved (Some text) \<Longrightarrow> jsonParse (stripFence (trim text)) = Inr v \<Longrightarrow>
     fst (queryDataWithGemini jsonParse service calls) = Inr v"
  by (simp_all add: queryDataWithGemini_def)

text \<open>
  Claim C8, as amended. The query bridge trims the raw response text, strips a
  surrounding triple-backquote fence (with an optional language tag made of word
  characters, white space around the body, and a body that is separated from the tag
  by white space or starts with a character that cannot continue the tag) and parses
  the remainder as JSON; text without a surrounding fence is parsed as it is. On any
  failure (the request is rejected, the response has no text, or the remainder is not
  JSON) exactly one message reaches the caller: the fixed text "Failed to get a valid
  response from the AI. \<dots>", the same for every kind of failure, while the text of
  the transport or parse error is only logged. There is no partial result (the result
  stays empty on failure, the error stays empty on success), and no retry: a query
  sends exactly one request, and a blank query sends none.
\<close>

theorem handleQuery_single_message:
  "(trim (query st) = [] \<longrightarrow> handleQuery jsonParse service (st, calls) = (st, calls)) \<and>
   (trim (query st) \<noteq> [] \<longrightarrow>
      snd (handleQuery jsonParse service (st, calls)) = calls + 1 \<and>
      isLoading (fst (handleQuery jsonParse service (st, calls))) = False \<and>
      ((\<exists>e. service calls = Rejected e) \<or> service calls = Resolved None
         \<or> (\<exists>text e. service calls = Resolved (Some text)
               \<and> jsonParse (stripFence (trim text)) = Inl e)
        \<longrightarrow> error (fst (handleQuery jsonParse service (st, calls))) = Some failureMessage
            \<and> result (fst (handleQuery jsonParse service (st, calls))) = None) \<and>
      (\<forall>text v. service calls = Resolved (Some text)
           \<and> jsonParse (stripFence (trim text)) = Inr v
        \<longrightarrow> result (fst (handleQuery jsonParse service (st, calls))) = Some v
            \<and> error (fst (handleQuery jsonParse service (st, calls))) = None)) \<and>
   (\<not> (prefix fence s \<and> suffix fence s \<and> 6 \<le> length s) \<longrightarrow> stripFence s = s) \<and>
   ((\<forall>c\<in>set tag. isWordChar c) \<and> (\<forall>c\<in>set ws. isWhiteSpace c)
      \<and> (\<forall>c\<in>set ws'. isWhiteSpace c)
      \<and> body \<noteq> [] \<and> \<not> isWhiteSpace (hd body) \<and> \<not> isWhiteSpace (last body)
      \<and> (ws \<noteq> [] \<or> \<not> isWordChar (hd body))
    \<longrightarrow> stripFence (fence @ tag @ ws @ body @ ws' @ fence) = body)"
proof (intro conjI impI allI)
  show "handleQuery jsonParse service (st, calls) = (st, calls)" if "trim (query st) = []"
    using that by (rule handleQuery_blank)
  show "stripFence s = s" if "\<not> (prefix fence s \<and> suffix fence s \<and> 6 \<le> length s)"
    using that by (rule stripFence_plain)
  show "stripFence (fence @ tag @ ws @ body @ ws' @ fence) = body"
    if "(\<forall>c\<in>set tag. isWordChar c) \<and> (\<forall>c\<in>set ws. isWhiteSpace c)
      \<and> (\<forall>c\<in>set ws'. isWhiteSpace c)
      \<and> body \<noteq> [] \<and> \<not> isWhiteSpace (hd body) \<and> \<not> isWhiteSpace (last body)
      \<and> (ws \<noteq> [] \<or> \<not> isWordChar (hd body))"
    using that stripFence_fenced [of tag ws ws' body] by blast
next
  assume q: "trim (query st) \<noteq> []"
  show "snd (handleQuery jsonParse service (st, calls)) = calls + 1"
    using q by (rule handleQuery_calls)
  show "isLoading (fst (handleQuery jsonParse service (st, calls))) = False"
  proof (cases "fst (queryDataWithGemini jsonParse service calls)")
    case (Inl m)
    with q show ?thesis by (rule handleQuery_failure(4))
  next
    case (Inr v)
    with q show ?thesis by (rule handleQuery_success(3))
  qed
  {
    assume "(\<exists>e. service calls = Rejected e) \<or> service calls = Resolved None
         \<or> (\<exists>text e. service calls = Resolved (Some text)
               \<and> jsonParse (stripFence (trim text)) = Inl e)"
    then have f: "fst (queryDataWithGemini jsonParse service calls) = Inl failureMessage"
    proof (elim disjE exE conjE)
      fix e assume "service calls = Rejected e"
      then show ?thesis by (rule queryDataWithGemini_cases(1))
    next
      assume "service calls = Resolved None"
      then show ?thesis by (rule queryDataWithGemini_cases(2))
    next
      fix response e
      assume "service calls = Resolved (Some response)"
        "jsonParse (stripFence (trim response)) = Inl e"
      then show ?thesis by (rule queryDataWithGemini_cases(3))
    qed
    show "error (fst (handleQuery jsonParse service (st, calls))) = Some failureMessage"
      by (rule handleQuery_failure(2) [OF q f])
    show "result (fst (handleQuery jsonParse service (st, calls))) = None"
      by (rule handleQuery_failure(3) [OF q f])
  }
  {
    fix response v
    assume "service calls = Resolved (Some response)
      \<and> jsonParse (stripFence (trim response)) = Inr v"
    then have f: "fst (queryDataWithGemini jsonParse service calls) = Inr v"
      by (intro queryDataWithGemini_cases(4) [of service calls response]) simp_all
    show "result (fst (handleQuery jsonParse service (st, calls))) = Some v"
      by (rule handleQuery_success(2) [OF q f])
    show "error (fst (handleQuery jsonParse service (st, calls))) = None"
      by (rule handleQuery_success(1) [OF q f])
  }
qed

lemma sampleState_query: "trim (query sampleState) \<noteq> []"
  by (simp add: sampleState_def trim_def isWhiteSpace_def)

lemma prose_not_json:
  "sampleJsonParse (stripFence (trim ''No data found.''))
     = Inl ''Unexpected token in JSON at position 0''"
  by (simp add: trim_def isWhiteSpace_def stripFence_def fenceMatch_def fence_def
        sampleJsonParse_def)

text \<open>A rejected request with the message "fetch failed", and a response in prose on
  which \<open>JSON.parse\<close> fails with "Unexpected token \<dots>": in both cases the message shown
  is the fixed one, not the text of the underlying error.\<close>

theorem handleQuery_verbatim_counterexample:
  "failingService 0 = Rejected ''fetch failed''
   \<and> error (fst (handleQuery sampleJsonParse failingService (sampleState, 0)))
       = Some failureMessage
   \<and> error (fst (handleQuery sampleJsonParse failingService (sampleState, 0)))
       \<noteq> Some ''fetch failed''
   \<and> proseService 0 = Resolved (Some ''No data found.'')
   \<and> sampleJsonParse (stripFence (trim ''No data found.''))
       = Inl ''Unexpected token in JSON at position 0''
   \<and> error (fst (handleQuery sampleJsonParse proseService (sampleState, 0)))
       = Some failureMessage
   \<and> error (fst (handleQuery sampleJsonParse proseService (sampleState, 0)))
       \<noteq> Some ''Unexpected token in JSON at position 0''"
proof -
  have r: "fst (queryDataWithGemini sampleJsonParse failingService 0) = Inl failureMessage"
    by (rule queryDataWithGemini_cases(1)) (simp add: failingService_def)
  have p: "fst (queryDataWithGemini sampleJsonParse proseService 0) = Inl failureMessage"
    using prose_not_json
    by (intro queryDataWithGemini_cases(3) [of proseService 0 "''No data found.''"])
       (simp_all add: proseService_def)
  have e1: "error (fst (handleQuery sampleJsonParse failingService (sampleState, 0)))
       = Some failureMessage"
    by (rule handleQuery_failure(2) [OF sampleState_query r])
  have e2: "error (fst (handleQuery sampleJsonParse proseService (sampleState, 0)))
       = Some failureMessage"
    by (rule handleQuery_failure(2) [OF sampleState_query p])
  have ne: "failureMessage \<noteq> ''fetch failed''"
    "failureMessage \<noteq> ''Unexpected token in JSON at position 0''"
    by (simp_all add: failureMessage_def)
  show ?thesis
    unfolding e1 e2 using ne prose_not_json by (simp add: failingService_def proseService_def)
qed

theorem handleQuery_single_message_witness:
  "trim (query sampleState) \<noteq> []
   \<and> stripFence fencedText = ''[1, 2]''
   \<and> snd (handleQuery sampleJsonParse fencedService (sampleState, 0)) = 1
   \<and> result (fst (handleQuery sampleJsonParse fencedService (sampleState, 0))) = Some ''[1, 2]''
   \<and> error (fst (handleQuery sampleJsonParse fencedService (sampleState, 0))) = None
   \<and> snd (handleQuery sampleJsonParse failingService (sampleState, 0)) = 1
   \<and> error (fst (handleQuery sampleJsonParse failingService (sampleState, 0)))
       = Some failureMessage
   \<and> result (fst (handleQuery sampleJsonParse failingService (sampleState, 0))) = None"
proof -
  note T = handleQuery_single_message
             [where st = sampleState and jsonParse = sampleJsonParse and calls = 0
                and tag = "''json''" and ws = "[CHR 0x0A]" and ws' = "[CHR 0x0A]"
                and body = "''[1, 2]''"]
  note F = T [THEN conjunct2, THEN conjunct2, THEN conjunct2, THEN mp]
  have trimmed: "trim fencedText = fencedText"
    by (simp add: fencedText_def trim_def fence_def isWhiteSpace_def)
  have shape: "(\<forall>c\<in>set ''json''. isWordChar c) \<and> (\<forall>c\<in>set [CHR 0x0A]. isWhiteSpace c)
      \<and> (\<forall>c\<in>set [CHR 0x0A]. isWhiteSpace c)
      \<and> ''[1, 2]'' \<noteq> [] \<and> \<not> isWhiteSpace (hd ''[1, 2]'') \<and> \<not> isWhiteSpace (last ''[1, 2]'')
      \<and> ([CHR 0x0A] \<noteq> [] \<or> \<not> isWordChar (hd ''[1, 2]''))"
    by (simp add: isWordChar_def isWhiteSpace_def)
  have strip: "stripFence fencedText = ''[1, 2]''"
    unfolding fencedText_def by (rule F [OF shape])
  have parse: "sampleJsonParse (stripFence (trim fencedText)) = Inr ''[1, 2]''"
    by (simp add: trimmed strip sampleJsonParse_def)
  note QF = T [where service = fencedService, THEN conjunct2, THEN conjunct1, THEN mp,
                OF sampleState_query]
  have calls1: "snd (handleQuery sampleJsonParse fencedService (sampleState, 0)) = 1"
    using QF [THEN conjunct1] by simp
  have ok: "result (fst (handleQuery sampleJsonParse fencedService (sampleState, 0)))
        = Some ''[1, 2]''
      \<and> error (fst (handleQuery sampleJsonParse fencedService (sampleState, 0))) = None"
    using QF [THEN conjunct2, THEN conjunct2, THEN conjunct2, THEN spec, THEN spec,
              of fencedText "''[1, 2]''"] parse
    by (simp add: fencedService_def)
  note QR = T [where service = failingService, THEN conjunct2, THEN conjunct1, THEN mp,
                OF sampleState_query]
  have calls2: "snd (handleQuery sampleJsonParse failingService (sampleState, 0)) = 1"
    using QR [THEN conjunct1] by simp
  have ko: "error (fst (handleQuery sampleJsonParse failingService (sampleState, 0)))
          = Some failureMessage
      \<and> result (fst (handleQuery sampleJsonParse failingService (sampleState, 0))) = None"
    using QR [THEN conjunct2, THEN conjunct2, THEN conjunct1]
    by (simp add: failingService_def)
  from sampleState_query strip calls1 ok calls2 ko show ?thesis by simp
qed

section \<open>Properties of parseDate\<close>

lemma parseDate_Spanish_example:
  "parseDate utc dateParse ''15 de enero de 2024'' = newDate utc 2024 (Some 0) 15"
  by code_simp

lemma parseDate_slashed_example:
  "parseDate utc dateParse ''15/01/2024'' = newDate utc 2024 (Some 0) 15"
  by code_simp

lemma parseDate_examples_equal:
  "parseDate utc dateParse ''15 de enero de 2024'' = parseDate utc dateParse ''15/01/2024''"
  by (simp only: parseDate_Spanish_example parseDate_slashed_example)

text \<open>Where the middle part of the " de " split is not the name of a member of
  \<open>Object.prototype\<close>, \<open>parseDate\<close> is the policy of the specification.\<close>

lemma parseDate_follows_policy:
  assumes "length (split (toLowerCase s) '' de '') = 3
             \<longrightarrow> split (toLowerCase s) '' de '' ! 1 \<notin> set objectPrototypeMembers"
  shows "parseDate utc dateParse s = parseDatePolicy utc dateParse s"
  using assms
  by (auto simp: parseDate_def parseSpanish_def parseSlashed_def parseDatePolicy_def readProp_def
        Let_def split: option.splits)

text \<open>
  Claim C2. The policy of the claim is \<^const>\<open>parseDatePolicy\<close>; \<open>parseDate\<close> follows it
  on every input whose month part is not the name of a member of \<open>Object.prototype\<close>
  (lemma \<open>parseDate_follows_policy\<close>), the two example inputs give the same date, and
  the function is total. The input "1 de constructor de 2024/5/6" is one on which the
  code leaves the policy: \<open>months["constructor"]\<close> is the inherited \<open>Object\<close> function,
  which is not \<open>undefined\<close>, so the first block returns \<open>new Date(2024, Object, 1)\<close>, the
  invalid date, where the policy finds no month name, splits on "/" and gives the
  valid date of year 6 (1906), month 4 and day 1.
\<close>

theorem parseDate_inherited_month:
  "split (toLowerCase ''1 de constructor de 2024/5/6'') '' de ''
     = [''1'', ''constructor'', ''2024/5/6'']
   \<and> map_of months ''constructor'' = None
   \<and> readProp months ''constructor'' = Inherited
   \<and> parseDate utcZone rejectAll ''1 de constructor de 2024/5/6'' = InvalidDate
   \<and> split ''1 de constructor de 2024/5/6'' ''/'' = [''1 de constructor de 2024'', ''5'', ''6'']
   \<and> parseDatePolicy utcZone rejectAll ''1 de constructor de 2024/5/6''
       = newDate utcZone 6 (Some 4) 1
   \<and> newDate utcZone 6 (Some 4) 1 = TimeValue (- 2009318400000)"
proof (intro conjI)
  show "split (toLowerCase ''1 de constructor de 2024/5/6'') '' de ''
     = [''1'', ''constructor'', ''2024/5/6'']"
    by code_simp
  show "map_of months ''constructor'' = None"
    by (simp add: months_def)
  show "readProp months ''constructor'' = Inherited"
    by (simp add: readProp_def months_def objectPrototypeMembers_def)
  show "parseDate utcZone rejectAll ''1 de constructor de 2024/5/6'' = InvalidDate"
    by code_simp
  show "split ''1 de constructor de 2024/5/6'' ''/'' = [''1 de constructor de 2024'', ''5'', ''6'']"
    by code_simp
  show "parseDatePolicy utcZone rejectAll ''1 de constructor de 2024/5/6''
       = newDate utcZone 6 (Some 4) 1"
    by code_simp
  show "newDate utcZone 6 (Some 4) 1 = TimeValue (- 2009318400000)"
    by code_simp
qed

subsection \<open>Numeric dates: rollover and range\<close>

lemma parseSlashed_numeric:
  assumes "split s ''/'' = [a, b, c]"
    and "parseInt a = Some d" "parseInt b = Some m" "parseInt c = Some y"
  shows "parseSlashed utc s = Some (newDate utc y (Some (m - 1)) d)"
  using assms by (simp add: parseSlashed_def)

lemma parseDate_numeric_no_fallback:
  assumes "split s ''/'' = [a, b, c]"
    and "parseInt a = Some d" "parseInt b = Some m" "parseInt c = Some y"
  shows "parseDate utc dateParse s = parseDate utc dateParse' s"
  by (simp add: parseDate_def parseSlashed_numeric [OF assms] split: option.splits)

lemma parseDate_numeric:
  assumes "split s ''/'' = [a, b, c]"
    and "parseInt a = Some d" "parseInt b = Some m" "parseInt c = Some y"
    and "parseSpanish utc s = None"
  shows "parseDate utc dateParse s = newDate utc y (Some (m - 1)) d"
  by (simp add: parseDate_def parseSlashed_numeric [OF assms(1-4)] assms(5))

lemma makeDay_Some:
  assumes "\<bar>y\<bar> \<le> 1000000" "\<bar>m\<bar> \<le> 10000000"
  shows "makeDay y m d
           = Some (dayFromYear (y + m div 12) + daysBeforeMonth (y + m div 12) (m mod 12) + d - 1)"
  using assms by (simp add: makeDay_def Let_def)

lemma makeDay_month_rollover:
  assumes "\<bar>y\<bar> < 1000000" "- 10000000 \<le> m" "m \<le> 9999988"
  shows "makeDay y (m + 12) d = makeDay (y + 1) m d" and "makeDay (y + 1) m d \<noteq> None"
proof -
  have e: "y + (m + 12) div 12 = y + 1 + m div 12" "(m + 12) mod 12 = m mod 12"
    by simp_all
  from assms have l: "\<bar>y\<bar> \<le> 1000000" "\<bar>m + 12\<bar> \<le> 10000000" "\<bar>y + 1\<bar> \<le> 1000000"
    "\<bar>m\<bar> \<le> 10000000"
    by simp_all
  show "makeDay y (m + 12) d = makeDay (y + 1) m d"
    by (simp only: makeDay_Some [OF l(1) l(2)] makeDay_Some [OF l(3) l(4)] e)
  show "makeDay (y + 1) m d \<noteq> None"
    by (simp only: makeDay_Some [OF l(3) l(4)] option.distinct simp_thms)
qed

lemma makeDay_day_shift: "makeDay y m (d + k) = map_option (\<lambda>n. n + k) (makeDay y m d)"
  by (simp add: makeDay_def Let_def)

lemma div_bounds:
  fixes a b :: int
  assumes "0 < b"
  shows "b * (a div b) \<le> a" and "a < b * (a div b) + b"
proof -
  have "a = b * (a div b) + a mod b" by simp
  moreover have "0 \<le> a mod b" "a mod b < b" using assms by simp_all
  ultimately show "b * (a div b) \<le> a" and "a < b * (a div b) + b" by linarith+
qed

lemma dayFromYear_bounds:
  assumes "\<bar>y\<bar> \<le> 210000"
  shows "\<bar>dayFromYear y\<bar> \<le> 78000000"
proof -
  define a b c where "a = (y - 1969) div 4" and "b = (y - 1901) div 100"
    and "c = (y - 1601) div 400"
  have "4 * a \<le> y - 1969" "y - 1969 < 4 * a + 4"
    "100 * b \<le> y - 1901" "y - 1901 < 100 * b + 100"
    "400 * c \<le> y - 1601" "y - 1601 < 400 * c + 400"
    unfolding a_def b_def c_def by (rule div_bounds, simp)+
  with assms have "\<bar>365 * y - 719050 + a - b + c\<bar> \<le> 78000000"
    by linarith
  moreover have "dayFromYear y = 365 * y - 719050 + a - b + c"
    by (simp add: dayFromYear_def a_def b_def c_def)
  ultimately show ?thesis by simp
qed

lemma daysBeforeMonth_bounds:
  assumes "0 \<le> mn" "mn < 12"
  shows "0 \<le> daysBeforeMonth y mn \<and> daysBeforeMonth y mn \<le> 335"
proof -
  from assms have "mn \<in> set [0..11]" by simp
  then have "mn \<in> {0, 1, 2, 3, 4, 5, 6, 7, 8, 9, 10, 11}"
    by (simp add: upto_rec1)
  then show ?thesis
    by (elim insertE emptyE) (simp_all add: daysBeforeMonth_def)
qed

lemma makeDay_bounds:
  assumes "\<bar>y\<bar> \<le> 200000" "\<bar>m\<bar> \<le> 100000" "\<bar>d\<bar> \<le> 1000000"
  shows "\<exists>n. makeDay y m d = Some n \<and> \<bar>n\<bar> \<le> 80000000"
proof -
  define q where "q = m div 12"
  have "12 * q \<le> m" "m < 12 * q + 12"
    unfolding q_def by (rule div_bounds, simp)+
  with assms(1,2) have ym: "\<bar>y + q\<bar> \<le> 210000"
    by linarith
  have mn: "0 \<le> m mod 12" "m mod 12 < 12" by simp_all
  define A B where "A = dayFromYear (y + q)" and "B = daysBeforeMonth (y + q) (m mod 12)"
  have "\<bar>A\<bar> \<le> 78000000"
    unfolding A_def by (rule dayFromYear_bounds [OF ym])
  moreover have "0 \<le> B" "B \<le> 335"
    unfolding B_def using daysBeforeMonth_bounds [OF mn, of "y + q"] by simp_all
  ultimately have "\<bar>A + B + d - 1\<bar> \<le> 80000000"
    using assms(3) by linarith
  moreover from assms(1,2) have "\<bar>y\<bar> \<le> 1000000" "\<bar>m\<bar> \<le> 10000000"
    by simp_all
  then have "makeDay y m d = Some (A + B + d - 1)"
    by (simp only: makeDay_Some A_def B_def q_def)
  ultimately show ?thesis by simp
qed

lemma newDate_valid:
  assumes y: "\<bar>y\<bar> \<le> 200000" and m: "\<bar>m\<bar> \<le> 100000" and d: "\<bar>d\<bar> \<le> 1000000"
    and zone: "\<forall>t. \<bar>utc t - t\<bar> \<le> msPerDay"
  shows "isValidDate (newDate utc y (Some m) d)"
proof -
  define yr where "yr = (if 0 \<le> y \<and> y \<le> 99 then 1900 + y else y)"
  have "\<bar>yr\<bar> \<le> 200000" using y by (auto simp: yr_def)
  then obtain D where D: "makeDay yr m d = Some D" and b: "\<bar>D\<bar> \<le> 80000000"
    using makeDay_bounds [OF _ m d] by blast
  define u where "u = utc (D * 86400000)"
  have "\<bar>u - D * 86400000\<bar> \<le> 86400000"
    unfolding u_def using zone [rule_format, of "D * 86400000"] by (simp add: msPerDay_def)
  with b have "\<bar>u\<bar> \<le> 8640000000000000"
    by linarith
  then show ?thesis
    using D
    by (simp add: newDate_def isValidDate_def timeClip_def yr_def [symmetric] Let_def msPerDay_def
          u_def)
qed

lemma rollover_example:
  "parseDate utc dateParse ''15/13/2024'' = newDate utc 2024 (Some 12) 15"
  "newDate utc 2024 (Some 12) 15 = newDate utc 2025 (Some 0) 15"
  by code_simp+

lemma rollover_parts:
  "split ''15/13/2024'' ''/'' = [''15'', ''13'', ''2024'']"
  "parseInt ''15'' = Some 15" "parseInt ''13'' = Some 13" "parseInt ''2024'' = Some 2024"
  "parseSpanish utcZone ''15/13/2024'' = None"
  by code_simp+

lemma far_year_split:
  "split ''1/1/300000'' ''/'' = [''1'', ''1'', ''300000'']"
  "split (toLowerCase ''1/1/300000'') '' de '' = [''1/1/300000'']"
  by code_simp+

lemma far_year_numbers: "parseInt ''1'' = Some 1" "parseInt ''300000'' = Some 300000"
  by (simp_all add: parseInt_def isWhiteSpace_def isDigit_def decimalValue_def digitValue_def)

lemma far_year_date: "newDate utcZone 300000 (Some 0) 1 = InvalidDate"
  by (simp add: newDate_def makeDay_def dayFromYear_def daysBeforeMonth_def inLeapYear_def
        timeClip_def utcZone_def msPerDay_def Let_def)

lemma far_year_parts:
  "split ''1/1/300000'' ''/'' = [''1'', ''1'', ''300000'']"
  "parseInt ''1'' = Some 1" "parseInt ''300000'' = Some 300000"
  "parseDate utcZone rejectAll ''1/1/300000'' = InvalidDate"
  by (simp_all add: parseDate_def parseSpanish_def parseSlashed_def far_year_split
        far_year_numbers far_year_date)

lemma rollover_days: "makeDay (2024 + 1) 0 15 = Some 20103"
  by (simp add: makeDay_def dayFromYear_def daysBeforeMonth_def inLeapYear_def Let_def)

text \<open>
  Claim C9, as amended. For every string whose split on "/" has exactly three parts
  that parse as numbers, \<open>parseDate\<close> never reaches the generic fallback: its result does
  not depend on how the engine parses date strings. Unless the "de" pattern applies,
  the result is \<open>new Date(y, m - 1, d)\<close>, in which a day or month out of range is not
  detected but rolls over into the adjacent months or years: "15/13/2024" is January
  15, 2025, and in \<open>MakeDay\<close>, for a year below 1000000 in absolute value and a month from
  -10000000 to 9999988, twelve months more give the day number of the same month of the
  next year, and \<open>k\<close> days more give the day number \<open>k\<close> days later. The date is valid
  whenever the year is at most 200000, the month at most 100000 and the day at most
  1000000 in absolute value (the time zone shifting the time by at most a day). It is
  not valid for every numeric input: "1/1/300000" gives the invalid date.
\<close>

theorem parseDate_numeric_rollover:
  "(split s ''/'' = [a, b, c] \<and> parseInt a = Some d \<and> parseInt b = Some m
      \<and> parseInt c = Some y
    \<longrightarrow> parseDate utc dateParse s = parseDate utc dateParse' s
        \<and> (parseSpanish utc s = None
             \<longrightarrow> parseDate utc dateParse s = newDate utc y (Some (m - 1)) d
                 \<and> (\<bar>y\<bar> \<le> 200000 \<and> \<bar>m - 1\<bar> \<le> 100000 \<and> \<bar>d\<bar> \<le> 1000000
                       \<and> (\<forall>t. \<bar>utc t - t\<bar> \<le> msPerDay)
                     \<longrightarrow> isValidDate (parseDate utc dateParse s))))
   \<and> (\<bar>y'\<bar> < 1000000 \<and> - 10000000 \<le> m' \<and> m' \<le> 9999988
        \<longrightarrow> makeDay y' (m' + 12) d' = makeDay (y' + 1) m' d'
            \<and> makeDay (y' + 1) m' d' \<noteq> None)
   \<and> makeDay y' m' (d' + k) = map_option (\<lambda>n. n + k) (makeDay y' m' d')
   \<and> parseDate utc dateParse ''15/13/2024'' = newDate utc 2025 (Some 0) 15"
proof (intro conjI impI)
  assume "\<bar>y'\<bar> < 1000000 \<and> - 10000000 \<le> m' \<and> m' \<le> 9999988"
  then have l: "\<bar>y'\<bar> < 1000000" "- 10000000 \<le> m'" "m' \<le> 9999988"
    by simp_all
  show "makeDay y' (m' + 12) d' = makeDay (y' + 1) m' d'"
    by (rule makeDay_month_rollover [OF l])
  show "makeDay (y' + 1) m' d' \<noteq> None"
    by (rule makeDay_month_rollover [OF l])
next
  show "makeDay y' m' (d' + k) = map_option (\<lambda>n. n + k) (makeDay y' m' d')"
    by (rule makeDay_day_shift)
  show "parseDate utc dateParse ''15/13/2024'' = newDate utc 2025 (Some 0) 15"
    by (simp only: rollover_example)
next
  assume H: "split s ''/'' = [a, b, c] \<and> parseInt a = Some d \<and> parseInt b = Some m
      \<and> parseInt c = Some y"
  then have parts: "split s ''/'' = [a, b, c]" "parseInt a = Some d" "parseInt b = Some m"
    "parseInt c = Some y"
    by simp_all
  show "parseDate utc dateParse s = parseDate utc dateParse' s"
    by (rule parseDate_numeric_no_fallback [OF parts])
  assume S: "parseSpanish utc s = None"
  show eq: "parseDate utc dateParse s = newDate utc y (Some (m - 1)) d"
    by (rule parseDate_numeric [OF parts S])
  assume B: "\<bar>y\<bar> \<le> 200000 \<and> \<bar>m - 1\<bar> \<le> 100000 \<and> \<bar>d\<bar> \<le> 1000000
                       \<and> (\<forall>t. \<bar>utc t - t\<bar> \<le> msPerDay)"
  show "isValidDate (parseDate utc dateParse s)"
    unfolding eq using B newDate_valid [of y "m - 1" d utc] by blast
qed

text \<open>The year 300000 lies beyond the range of \<open>Date\<close>: the three parts are numbers, and
  the result is the invalid date.\<close>

theorem parseDate_numeric_counterexample:
  "split ''1/1/300000'' ''/'' = [''1'', ''1'', ''300000'']
   \<and> parseInt ''1'' = Some 1 \<and> parseInt ''300000'' = Some 300000
   \<and> \<not> isValidDate (parseDate utcZone rejectAll ''1/1/300000'')"
  by (simp add: far_year_parts isValidDate_def)

theorem parseDate_numeric_rollover_witness:
  "split ''15/13/2024'' ''/'' = [''15'', ''13'', ''2024'']
   \<and> parseInt ''15'' = Some 15 \<and> parseInt ''13'' = Some 13 \<and> parseInt ''2024'' = Some 2024
   \<and> parseSpanish utcZone ''15/13/2024'' = None
   \<and> parseDate utcZone rejectAll ''15/13/2024'' = newDate utcZone 2024 (Some (13 - 1)) 15
   \<and> isValidDate (parseDate utcZone rejectAll ''15/13/2024'')
   \<and> makeDay 2024 (0 + 12) 15 = makeDay (2024 + 1) 0 15
   \<and> makeDay (2024 + 1) 0 15 = Some 20103"
proof -
  have parts: "split ''15/13/2024'' ''/'' = [''15'', ''13'', ''2024'']
      \<and> parseInt ''15'' = Some 15 \<and> parseInt ''13'' = Some 13 \<and> parseInt ''2024'' = Some 2024"
    by (simp only: rollover_parts simp_thms)
  have bounds: "\<bar>2024 :: int\<bar> \<le> 200000 \<and> \<bar>13 - 1 :: int\<bar> \<le> 100000 \<and> \<bar>15 :: int\<bar> \<le> 1000000
      \<and> (\<forall>t. \<bar>utcZone t - t\<bar> \<le> msPerDay)"
    by (simp add: utcZone_def msPerDay_def)
  have limits: "\<bar>2024 :: int\<bar> < 1000000 \<and> - 10000000 \<le> (0 :: int) \<and> (0 :: int) \<le> 9999988"
    by simp
  note T = parseDate_numeric_rollover
             [of "''15/13/2024''" "''15''" "''13''" "''2024''" 15 13 2024 utcZone rejectAll,
              THEN conjunct1, THEN mp, OF parts, THEN conjunct2, THEN mp, OF rollover_parts(5)]
  note V = T [THEN conjunct2, THEN mp, OF bounds]
  note R = parseDate_numeric_rollover
             [where y' = 2024 and m' = 0 and d' = 15,
              THEN conjunct2, THEN conjunct1, THEN mp, OF limits, THEN conjunct1]
  from parts rollover_parts(5) T [THEN conjunct1] V R rollover_days show ?thesis
    by (intro conjI) (simp_all only: simp_thms)
qed

section \<open>Properties of the spending aggregate\<close>

lemma supplierKey_extend:
  "supplierKey
     (Contrato.extend con
        (ContratoConProveedor.fields
           (newMap (map (\<lambda>p. (proveedor p, p)) proveedores) (proveedor_fk con)) as))
     = proveedor_fk con"
proof (cases "newMap (map (\<lambda>p. (proveedor p, p)) proveedores) (proveedor_fk con)")
  case None
  then show ?thesis by (simp add: supplierKey_def extend_contract)
next
  case (Some p)
  then have "proveedor p = proveedor_fk con"
    by (auto dest: newMap_keyed_Some)
  with Some show ?thesis by (simp add: supplierKey_def extend_contract)
qed

lemma supplierKey_joined:
  "map supplierKey (contratosConProveedor articulos proveedores contratos adjs)
     = map proveedor_fk contratos"
  by (simp add: contratosConProveedor_def Let_def supplierKey_extend)

lemma spendingOf_step:
  "spendingOf (cs @ [c]) = addSpending (spendingOf cs) (supplierKey c) (monto_maximo c)"
  by (simp add: spendingOf_def)

lemma spending_sample:
  "spendingBySupplierData engineSort
     (contratosConProveedor sampleArticulos sampleProveedores sampleContratos sampleAdjudicados)
   = [\<lparr>name = ''P1'', amount = Amount 300\<rparr>, \<lparr>name = ''P9'', amount = Amount 50\<rparr>]"
  by code_simp

lemma spendingOf_pairs:
  "spendingOf cs
     = foldl (\<lambda>spending (k, m). addSpending spending k m) []
         (map (\<lambda>c. (supplierKey c, monto_maximo c)) cs)"
  by (simp add: spendingOf_def foldl_map)

lemma map_pair_zip: "map (\<lambda>c. (f c, g c)) xs = zip (map f xs) (map g xs)"
  by (induction xs) simp_all

lemma unresolved_pairs:
  "map (\<lambda>c. (supplierKey c, monto_maximo c)) (unresolvedContratos kms) = kms"
proof -
  have "map supplierKey (unresolvedContratos kms) = map fst kms"
    by (simp add: unresolvedContratos_def supplierKey_joined comp_def sampleContrato_def
          case_prod_beta)
  moreover have "map monto_maximo (unresolvedContratos kms) = map snd kms"
    by (simp add: unresolvedContratos_def contratosConProveedor_base comp_def sampleContrato_def
          case_prod_beta)
  ultimately show ?thesis
    by (simp only: map_pair_zip zip_map_fst_snd)
qed

lemma spendingOf_unresolved:
  "spendingOf (unresolvedContratos kms)
     = foldl (\<lambda>spending (k, m). addSpending spending k m) [] kms"
  by (simp only: spendingOf_pairs unresolved_pairs)

lemma inherited_reads:
  "readProp [] ''__proto__'' = (Inherited :: spendval lookup)"
  "readProp [] ''constructor'' = (Inherited :: spendval lookup)"
  "readProp [(''constructor'', Text)] ''constructor'' = Own Text"
  by (simp_all add: readProp_def objectPrototypeMembers_def)

text \<open>
  Claim C6. The aggregate groups the contracts by supplier key, sums \<open>monto_maximo\<close> in
  each group, sorts by descending sum and keeps at most 10 entries, as on the sample
  contracts, where the two contracts of P1 with 100 and 200 give one entry of 300
  (lemma \<open>spending_sample\<close>), and on every contract list in which no supplier key is
  the name of a member of \<open>Object.prototype\<close> (lemma \<open>spendingBySupplierData_groups\<close>
  below). It does so only on those lists: \<open>spending\<close> is a plain object, so for the key
  \<open>__proto__\<close> the read finds the prototype, the sum becomes a string and the
  assignment is ignored, which leaves the supplier out of the result; and for the key
  \<open>constructor\<close> the read finds the inherited function, and the entry carries a string
  instead of the sum of 100 and 200.
\<close>

theorem spendingBySupplierData_inherited_key:
  "map supplierKey (unresolvedContratos [(''__proto__'', 100)]) = [''__proto__'']
   \<and> map monto_maximo (unresolvedContratos [(''__proto__'', 100)]) = [100]
   \<and> spendingBySupplierData engineSort (unresolvedContratos [(''__proto__'', 100)]) = []
   \<and> map supplierKey (unresolvedContratos [(''constructor'', 100), (''constructor'', 200)])
       = [''constructor'', ''constructor'']
   \<and> spendingBySupplierData engineSort
         (unresolvedContratos [(''constructor'', 100), (''constructor'', 200)])
       = [\<lparr>name = ''constructor'', amount = Text\<rparr>]"
proof (intro conjI)
  show "map supplierKey (unresolvedContratos [(''__proto__'', 100)]) = [''__proto__'']"
    using arg_cong [OF unresolved_pairs [of "[(''__proto__'', 100)]"], of "map fst"]
    by (simp add: comp_def)
  show "map monto_maximo (unresolvedContratos [(''__proto__'', 100)]) = [100]"
    using arg_cong [OF unresolved_pairs [of "[(''__proto__'', 100)]"], of "map snd"]
    by (simp add: comp_def)
  show "map supplierKey (unresolvedContratos [(''constructor'', 100), (''constructor'', 200)])
       = [''constructor'', ''constructor'']"
    using arg_cong [OF unresolved_pairs [of "[(''constructor'', 100), (''constructor'', 200)]"],
            of "map fst"]
    by (simp add: comp_def)
  have p: "spendingOf (unresolvedContratos [(''__proto__'', 100)]) = []"
    by (simp add: spendingOf_unresolved addSpending_def)
  show "spendingBySupplierData engineSort (unresolvedContratos [(''__proto__'', 100)]) = []"
    by (simp add: spendingBySupplierData_def p objectEntries_def arraySort_short)
  have c: "spendingOf (unresolvedContratos [(''constructor'', 100), (''constructor'', 200)])
             = [(''constructor'', Text)]"
    by (simp add: spendingOf_unresolved addSpending_def inherited_reads)
  have e: "objectEntries [(''constructor'', Text)] = [(''constructor'', Text)]"
    by (simp add: objectEntries_def isArrayIndex_def isDigit_def)
  show "spendingBySupplierData engineSort
         (unresolvedContratos [(''constructor'', 100), (''constructor'', 200)])
       = [\<lparr>name = ''constructor'', amount = Text\<rparr>]"
    by (simp add: spendingBySupplierData_def c e arraySort_short)
qed

text \<open>The aggregate on supplier keys that are not names of members of
  \<open>Object.prototype\<close>: the groups, their sums, the order and the truncation.\<close>

lemma map_of_Some_key: "map_of sp k = Some v \<Longrightarrow> k \<in> fst ` set sp"
  by (induction sp) (auto split: if_splits)

lemma addSpending_new:
  assumes "k \<notin> set objectPrototypeMembers" "map_of sp k = None"
  shows "addSpending sp k m = sp @ [(k, Amount m)]"
proof -
  from assms(1) have np: "k \<noteq> ''__proto__''"
    by (auto simp: objectPrototypeMembers_def)
  from assms(2) have "k \<notin> fst ` set sp" by (simp add: map_of_eq_None_iff)
  with assms np show ?thesis
    by (simp add: addSpending_def readProp_def)
qed

lemma addSpending_old:
  assumes "k \<notin> set objectPrototypeMembers" "map_of sp k = Some (Amount n)"
  shows "addSpending sp k m
           = map (\<lambda>(k', w). if k' = k then (k', Amount (n + m)) else (k', w)) sp"
proof -
  from assms(1) have np: "k \<noteq> ''__proto__''"
    by (auto simp: objectPrototypeMembers_def)
  from assms(2) have "k \<in> fst ` set sp" by (rule map_of_Some_key)
  with assms(2) np show ?thesis
    by (simp add: addSpending_def readProp_def)
qed

lemma map_update_keys:
  "map fst (map (\<lambda>(k', w). if k' = k then (k', u) else (k', w)) sp) = map fst sp"
  by (induction sp) auto

lemma map_update_values:
  assumes "e \<in> set (map (\<lambda>(k', w). if k' = k then (k', u) else (k', w)) sp)"
  shows "(fst e = k \<and> snd e = u) \<or> (fst e \<noteq> k \<and> e \<in> set sp)"
  using assms by (auto split: if_splits)

lemma spending_invariant:
  fixes kf :: "'c \<Rightarrow> string" and mf :: "'c \<Rightarrow> int"
  assumes "\<forall>c\<in>set cs. kf c \<notin> set objectPrototypeMembers"
  shows "distinct (map fst (foldl (\<lambda>sp c. addSpending sp (kf c) (mf c)) [] cs))
       \<and> fst ` set (foldl (\<lambda>sp c. addSpending sp (kf c) (mf c)) [] cs) = kf ` set cs
       \<and> (\<forall>e\<in>set (foldl (\<lambda>sp c. addSpending sp (kf c) (mf c)) [] cs).
             snd e = Amount (sum_list (map mf (filter (\<lambda>c. kf c = fst e) cs))))"
  using assms
proof (induction cs rule: rev_induct)
  case Nil
  then show ?case by simp
next
  case (snoc c cs)
  define sp where "sp = foldl (\<lambda>sp c. addSpending sp (kf c) (mf c)) [] cs"
  define total where "total = (\<lambda>xs k. sum_list (map mf (filter (\<lambda>c. kf c = k) xs)))"
  from snoc have IH: "distinct (map fst sp)" "fst ` set sp = kf ` set cs"
    and IH3: "\<And>e. e \<in> set sp \<Longrightarrow> snd e = Amount (total cs (fst e))"
    by (simp_all add: sp_def total_def)
  from snoc.prems have k: "kf c \<notin> set objectPrototypeMembers" by simp
  have step: "foldl (\<lambda>sp c. addSpending sp (kf c) (mf c)) [] (cs @ [c])
                = addSpending sp (kf c) (mf c)"
    by (simp add: sp_def)
  have sums: "total (cs @ [c]) k' = (if kf c = k' then total cs k' + mf c else total cs k')"
    for k'
    by (simp add: total_def)
  have goal: "distinct (map fst (addSpending sp (kf c) (mf c)))
       \<and> fst ` set (addSpending sp (kf c) (mf c)) = kf ` set (cs @ [c])
       \<and> (\<forall>e\<in>set (addSpending sp (kf c) (mf c)). snd e = Amount (total (cs @ [c]) (fst e)))"
  proof (cases "map_of sp (kf c)")
    case None
    then have notin: "kf c \<notin> fst ` set sp" by (simp add: map_of_eq_None_iff)
    have "kf x \<noteq> kf c" if "x \<in> set cs" for x
    proof
      assume "kf x = kf c"
      moreover from that have "kf x \<in> kf ` set cs" by (rule imageI)
      ultimately show False using notin IH(2) by simp
    qed
    then have "filter (\<lambda>x. kf x = kf c) cs = []"
      by (simp add: filter_empty_conv)
    then have zero: "total cs (kf c) = 0"
      by (simp add: total_def)
    have new: "addSpending sp (kf c) (mf c) = sp @ [(kf c, Amount (mf c))]"
      by (rule addSpending_new [OF k None])
    show ?thesis
      unfolding new
    proof (intro conjI ballI)
      show "distinct (map fst (sp @ [(kf c, Amount (mf c))]))"
        using IH(1) notin by simp
      show "fst ` set (sp @ [(kf c, Amount (mf c))]) = kf ` set (cs @ [c])"
        using IH(2) by auto
      fix e assume "e \<in> set (sp @ [(kf c, Amount (mf c))])"
      then consider "e \<in> set sp" | "e = (kf c, Amount (mf c))" by auto
      then show "snd e = Amount (total (cs @ [c]) (fst e))"
      proof cases
        case 1
        then have "fst e \<in> fst ` set sp" by (rule imageI)
        with notin have "fst e \<noteq> kf c" by metis
        with IH3 [OF 1] show ?thesis by (simp add: sums)
      next
        case 2
        then show ?thesis by (simp add: sums zero)
      qed
    qed
  next
    case (Some v)
    then have mem: "(kf c, v) \<in> set sp" by (rule map_of_SomeD)
    from IH3 [OF mem] have v: "v = Amount (total cs (kf c))" by simp
    have upd: "addSpending sp (kf c) (mf c)
                 = map (\<lambda>(k', w). if k' = kf c then (k', Amount (total cs (kf c) + mf c))
                                   else (k', w)) sp"
      by (rule addSpending_old [OF k Some [unfolded v]])
    have kin: "kf c \<in> kf ` set cs"
      using mem IH(2) by (metis fst_conv image_eqI)
    show ?thesis
      unfolding upd
    proof (intro conjI ballI)
      show "distinct (map fst (map (\<lambda>(k', w). if k' = kf c
               then (k', Amount (total cs (kf c) + mf c)) else (k', w)) sp))"
        by (simp only: map_update_keys IH(1))
      have "set (map fst (map (\<lambda>(k', w). if k' = kf c
               then (k', Amount (total cs (kf c) + mf c)) else (k', w)) sp)) = set (map fst sp)"
        by (simp only: map_update_keys)
      then have "fst ` set (map (\<lambda>(k', w). if k' = kf c
               then (k', Amount (total cs (kf c) + mf c)) else (k', w)) sp) = fst ` set sp"
        by (simp only: set_map)
      then show "fst ` set (map (\<lambda>(k', w). if k' = kf c
               then (k', Amount (total cs (kf c) + mf c)) else (k', w)) sp) = kf ` set (cs @ [c])"
        using IH(2) kin by auto
      fix e assume "e \<in> set (map (\<lambda>(k', w). if k' = kf c
               then (k', Amount (total cs (kf c) + mf c)) else (k', w)) sp)"
      from map_update_values [OF this]
      show "snd e = Amount (total (cs @ [c]) (fst e))"
      proof (elim disjE conjE)
        assume "fst e = kf c" "snd e = Amount (total cs (kf c) + mf c)"
        then show ?thesis by (simp add: sums)
      next
        assume "fst e \<noteq> kf c" "e \<in> set sp"
        with IH3 [of e] show ?thesis by (simp add: sums)
      qed
    qed
  qed
  show ?case
    unfolding step using goal by (simp add: total_def)
qed

lemma mset_objectEntries: "mset (objectEntries obj) = mset obj"
  by (simp add: objectEntries_def)

lemma compareSpending_amounts:
  "amount a = Amount x \<Longrightarrow> amount b = Amount y \<Longrightarrow> compareSpending a b = Some (y - x)"
  "amount a = Amount x \<Longrightarrow> amount b = Amount y
     \<Longrightarrow> (sortCompare compareSpending a b < 0) = (y < x)"
  by (simp_all add: compareSpending_def sortCompare_def)

text \<open>On entries whose values are all numbers the comparison function is consistent.\<close>

lemma compareSpending_consistent:
  assumes "\<forall>e\<in>set es. \<exists>x. amount e = Amount x"
  shows "consistentOn compareSpending es"
proof (rule consistentOn_key_desc [where f = "\<lambda>e. case amount e of Amount x \<Rightarrow> x | Text \<Rightarrow> 0"])
  fix a b assume "a \<in> set es" "b \<in> set es"
  with assms obtain x y where xy: "amount a = Amount x" "amount b = Amount y" by blast
  show "\<exists>v. compareSpending a b = Some v
          \<and> (v < 0) = ((case amount b of Amount x \<Rightarrow> x | Text \<Rightarrow> 0)
                        < (case amount a of Amount x \<Rightarrow> x | Text \<Rightarrow> 0))
          \<and> (v = 0) = ((case amount a of Amount x \<Rightarrow> x | Text \<Rightarrow> 0)
                        = (case amount b of Amount x \<Rightarrow> x | Text \<Rightarrow> 0))"
    by (auto simp add: compareSpending_amounts(1) [OF xy] xy)
qed

lemma spendingBySupplierData_groups:
  fixes contratos :: "ContratoConProveedor list"
    and engineSort :: "(SpendEntry \<Rightarrow> SpendEntry \<Rightarrow> int option) \<Rightarrow> SpendEntry list \<Rightarrow> SpendEntry list"
  defines "full \<equiv> arraySort engineSort compareSpending
                    (map (\<lambda>(k, v). \<lparr>name = k, amount = v\<rparr>) (objectEntries (spendingOf contratos)))"
  assumes plain: "\<forall>c\<in>set contratos. supplierKey c \<notin> set objectPrototypeMembers"
  shows "spendingBySupplierData engineSort contratos = take 10 full"
    and "length (spendingBySupplierData engineSort contratos) \<le> 10"
    and "distinct (map name full)"
    and "name ` set full = supplierKey ` set contratos"
    and "\<forall>e\<in>set full.
           amount e = Amount (sum_list (map monto_maximo
                                (filter (\<lambda>c. supplierKey c = name e) contratos)))"
    and "sorted_wrt (\<lambda>a b. \<exists>x y. amount a = Amount x \<and> amount b = Amount y \<and> y \<le> x) full"
proof -
  define sp where "sp = spendingOf contratos"
  define mk where "mk = (\<lambda>(k :: string, v :: spendval). \<lparr>name = k, amount = v\<rparr>)"
  define total where
    "total = (\<lambda>k. sum_list (map monto_maximo (filter (\<lambda>c. supplierKey c = k) contratos)))"
  note inv = spending_invariant [of contratos supplierKey monto_maximo, OF plain,
                                 folded spendingOf_def sp_def]
  have d: "distinct (map fst sp)" and keys: "fst ` set sp = supplierKey ` set contratos"
    and vals: "\<And>e. e \<in> set sp \<Longrightarrow> snd e = Amount (total (fst e))"
    using inv by (simp_all add: total_def)
  have full: "full = arraySort engineSort compareSpending (map mk (objectEntries sp))"
    by (simp add: full_def mk_def sp_def)
  have ms: "mset full = image_mset mk (mset sp)"
    by (simp add: full mset_arraySort mset_objectEntries)
  have nm: "name (mk e) = fst e" "amount (mk e) = snd e" for e
    by (simp_all add: mk_def case_prod_beta)
  show "spendingBySupplierData engineSort contratos = take 10 full"
    by (simp add: spendingBySupplierData_def full_def)
  then show "length (spendingBySupplierData engineSort contratos) \<le> 10"
    by simp
  have "mset (map name full) = mset (map fst sp)"
    using arg_cong [OF ms, of "image_mset name"]
    by (simp add: multiset.map_comp comp_def nm)
  then show "distinct (map name full)"
    using d by (metis mset_eq_imp_distinct_iff)
  have set_full: "set full = mk ` set sp"
    using arg_cong [OF ms, of set_mset] by simp
  show "name ` set full = supplierKey ` set contratos"
    unfolding set_full keys [symmetric] by (simp add: image_image nm)
  have amounts: "amount e = Amount (total (name e))" if "e \<in> set full" for e
  proof -
    from that set_full obtain p where p: "p \<in> set sp" "e = mk p" by auto
    with vals [OF p(1)] show ?thesis by (simp add: nm)
  qed
  then show "\<forall>e\<in>set full.
           amount e = Amount (sum_list (map monto_maximo
                                (filter (\<lambda>c. supplierKey c = name e) contratos)))"
    by (simp add: total_def)
  have set_in: "set (map mk (objectEntries sp)) = set full"
    by (simp add: full set_arraySort)
  have "consistentOn compareSpending (map mk (objectEntries sp))"
  proof (rule compareSpending_consistent, rule ballI)
    fix e assume "e \<in> set (map mk (objectEntries sp))"
    then have "e \<in> set full" by (simp only: set_in)
    then show "\<exists>x. amount e = Amount x" using amounts by blast
  qed
  then have "sorted_wrt (\<lambda>a b. \<not> sortCompare compareSpending b a < 0) full"
    unfolding full by (rule sorted_wrt_arraySort)
  then show "sorted_wrt (\<lambda>a b. \<exists>x y. amount a = Amount x \<and> amount b = Amount y \<and> y \<le> x) full"
  proof (rule sorted_wrt_mono_rel [rotated])
    fix a b assume ab: "a \<in> set full" "b \<in> set full"
      and c: "\<not> sortCompare compareSpending b a < 0"
    from ab obtain x y where xy: "amount a = Amount x" "amount b = Amount y"
      using amounts by blast
    with c have "y \<le> x" by (simp add: compareSpending_amounts(2) [OF xy(2) xy(1)])
    with xy show "\<exists>x y. amount a = Amount x \<and> amount b = Amount y \<and> y \<le> x"
      by simp
  qed
qed

end
